theory Spec2Isabelle
  imports Complex_Main "HOL-Library.Log_Nat"
begin

section \<open>JavaScript numbers\<close>

text \<open>
  \<^verbatim>\<open>database.js\<close> computes with JavaScript numbers, the IEEE 754 doubles. A number
  is a rational or one of the three values a division can also produce:
  \<^verbatim>\<open>Infinity\<close>, \<^verbatim>\<open>-Infinity\<close> and \<^verbatim>\<open>NaN\<close>. In \<^verbatim>\<open>runTest\<close> the operands are
  counters and clock readings, and its quotients are taken exactly. In
  \<^verbatim>\<open>getServerSpecs\<close>, which publishes rounded quotients, every operation is rounded to
  the nearest double, as the machine does.
\<close>

datatype number = Num rat | PosInfinity | NegInfinity | NaN

text \<open>\<^verbatim>\<open>a / b\<close> on finite operands: division by zero raises nothing in JavaScript.\<close>

definition divide_js :: "rat \<Rightarrow> rat \<Rightarrow> number" where
  "divide_js a b =
     (if b \<noteq> 0 then Num (a / b)
      else if a = 0 then NaN
      else if 0 < a then PosInfinity else NegInfinity)"

text \<open>\<^verbatim>\<open>Math.round\<close>: the nearest integer, a tie going towards plus infinity.\<close>

fun Math_round :: "number \<Rightarrow> number" where
  "Math_round (Num x) = Num (of_int \<lfloor>x + 1 / 2\<rfloor>)"
| "Math_round PosInfinity = PosInfinity"
| "Math_round NegInfinity = NegInfinity"
| "Math_round NaN = NaN"

text \<open>Multiplication and division by a positive literal, as in \<^verbatim>\<open>x * 1000\<close> and \<^verbatim>\<open>x / 10\<close>.\<close>

fun times_const :: "number \<Rightarrow> rat \<Rightarrow> number" where
  "times_const (Num x) c = Num (x * c)"
| "times_const PosInfinity c = PosInfinity"
| "times_const NegInfinity c = NegInfinity"
| "times_const NaN c = NaN"

fun div_const :: "number \<Rightarrow> rat \<Rightarrow> number" where
  "div_const (Num x) c = Num (x / c)"
| "div_const PosInfinity c = PosInfinity"
| "div_const NegInfinity c = NegInfinity"
| "div_const NaN c = NaN"

subsection \<open>Rounding to the nearest double\<close>

text \<open>
  The binary exponent of a positive rational \<open>x\<close>, the \<open>e\<close> with
  \<open>2^e \<le> x < 2^(e + 1)\<close>, from the bit lengths of its numerator and denominator.
\<close>

definition exponent :: "rat \<Rightarrow> int" where
  "exponent x =
     (let (a, b) = quotient_of x;
          d = bitlen a - bitlen b
      in if 2 powi d \<le> x then d else d - 1)"

text \<open>The nearest integer, a tie going to the even one.\<close>

definition round_half_even :: "rat \<Rightarrow> int" where
  "round_half_even z =
     (let f = \<lfloor>z\<rfloor>; r = z - of_int f
      in if r < 1 / 2 then f else if 1 / 2 < r then f + 1 else if even f then f else f + 1)"

text \<open>
  The double nearest to a rational: 53 significant bits, a tie going to the even
  significand; below \<open>2^-1022\<close> the spacing stays \<open>2^-1074\<close> (the subnormal numbers);
  a result of \<open>2^1024\<close> or more is an infinity. The sign of a zero is not modelled.
\<close>

definition round_to_double :: "rat \<Rightarrow> number" where
  "round_to_double x =
     (if x = 0 then Num 0
      else
        (let e = max (exponent \<bar>x\<bar>) (- 1022);
             q = 2 powi (e - 52);
             y = of_int (round_half_even (\<bar>x\<bar> / q)) * q
         in if 2 powi 1024 \<le> y then (if 0 < x then PosInfinity else NegInfinity)
            else Num (if 0 < x then y else - y)))"

text \<open>\<^verbatim>\<open>a - b\<close>, \<^verbatim>\<open>x * c\<close> and \<^verbatim>\<open>x / c\<close> on doubles, the right operand finite.\<close>

definition minus_double :: "rat \<Rightarrow> rat \<Rightarrow> number" where
  "minus_double a b = round_to_double (a - b)"

fun times_double :: "number \<Rightarrow> rat \<Rightarrow> number" where
  "times_double (Num x) c = round_to_double (x * c)"
| "times_double PosInfinity c = (if c = 0 then NaN else if 0 < c then PosInfinity else NegInfinity)"
| "times_double NegInfinity c = (if c = 0 then NaN else if 0 < c then NegInfinity else PosInfinity)"
| "times_double NaN c = NaN"

fun divide_double :: "number \<Rightarrow> rat \<Rightarrow> number" where
  "divide_double (Num a) b =
     (if b \<noteq> 0 then round_to_double (a / b)
      else if a = 0 then NaN
      else if 0 < a then PosInfinity else NegInfinity)"
| "divide_double PosInfinity b = (if 0 \<le> b then PosInfinity else NegInfinity)"
| "divide_double NegInfinity b = (if 0 \<le> b then NegInfinity else PosInfinity)"
| "divide_double NaN b = NaN"

section \<open>Strings\<close>

text \<open>\<^verbatim>\<open>s.substring(a, b)\<close>: both indices are clamped to the string and swapped when
  they are out of order.\<close>

definition substring :: "string \<Rightarrow> int \<Rightarrow> int \<Rightarrow> string" where
  "substring s a b =
     (let n = int (length s);
          a' = max 0 (min a n);
          b' = max 0 (min b n);
          lo = min a' b';
          hi = max a' b'
      in take (nat (hi - lo)) (drop (nat lo) s))"

text \<open>The decimal rendering of an integer inside a template literal.\<close>

fun digits :: "nat \<Rightarrow> string" where
  "digits n =
     (if n < 10 then [char_of (48 + n)]
      else digits (n div 10) @ [char_of (48 + n mod 10)])"

declare digits.simps [simp del]

definition show_int :: "int \<Rightarrow> string" where
  "show_int i = (if i < 0 then CHR ''-'' # digits (nat (- i)) else digits (nat i))"

text \<open>\<^verbatim>\<open>xs[i]\<close>: an index outside the array yields \<^verbatim>\<open>undefined\<close>, here \<open>None\<close>.\<close>

definition js_index :: "'a list \<Rightarrow> int \<Rightarrow> 'a option" where
  "js_index xs i = (if 0 \<le> i \<and> i < int (length xs) then Some (xs ! nat i) else None)"

section \<open>The database file and the process state\<close>

text \<open>
  The two tables of \<^verbatim>\<open>initDatabase\<close>. Both have an \<^verbatim>\<open>INTEGER PRIMARY KEY
  AUTOINCREMENT\<close>, so each table carries the largest row id it has ever handed out
  (\<open>seq\<close>, the entry of \<^verbatim>\<open>sqlite_sequence\<close>). A table that has not been created is
  \<open>None\<close>.
\<close>

record cache_row =
  cache_id :: int
  result :: string
  timestamp :: int

record comment =
  comment_id :: int
  author :: string
  content :: string
  test_session :: string
  comment_timestamp :: int

record 'r table =
  rows :: "'r list"
  seq :: int

record sqlite_file =
  test_results_cache :: "cache_row table option"
  comments :: "comment table option"

text \<open>Every statement run through a prepared statement, in the order it was run.\<close>

datatype stmt =
    SelectCache
  | DeleteCache
  | InsertCache int
  | InsertComment int
  | SelectComment "int option"
  | UpdateComment "int option"
  | DeleteComment "int option"
  | DeleteSession string

text \<open>
  The state a call works on: the module variable \<^verbatim>\<open>db\<close> (the connection it holds,
  named by its serial number, \<open>None\<close> while undefined), the number of connections
  opened so far, the pragmas of the current connection, the content of
  \<^verbatim>\<open>database.sqlite\<close>, the readings \<^verbatim>\<open>Date.now()\<close> will return (milliseconds, in
  order), the number of \<^verbatim>\<open>Math.random()\<close> draws made, and the statements run.
  A call that needs a clock reading after the last one of \<open>clock\<close> has not returned
  within the observed time.
\<close>

record world =
  db :: "nat option"
  connections :: nat
  pragmas :: "string list"
  dbfile :: sqlite_file
  clock :: "int list"
  draws :: nat
  trace :: "stmt list"

datatype error = SqliteError | SyntaxError | ClockExhausted

record WorkloadResult =
  dbSizeInMb :: number
  totalOperations :: nat
  operationsPerSecond :: number
  writes :: nat
  writesPerSecond :: number
  reads :: nat
  readsPerSecond :: number
  updates :: nat
  updatesPerSecond :: number
  deletes :: nat
  deletesPerSecond :: number
  duration :: number

text \<open>
  What the platform supplies and the source only calls: \<^verbatim>\<open>JSON.parse\<close> (\<open>None\<close>
  when it throws), \<^verbatim>\<open>JSON.stringify\<close>, \<^verbatim>\<open>Number.prototype.toString(36)\<close>, the
  successive values of \<^verbatim>\<open>Math.random()\<close>, and the size in bytes that
  \<^verbatim>\<open>fs.statSync\<close> reports for the database file.
\<close>

record 'j platform =
  JSON_parse :: "string \<Rightarrow> 'j option"
  JSON_stringify :: "WorkloadResult \<Rightarrow> string"
  toString36 :: "rat \<Rightarrow> string"
  random_values :: "nat \<Rightarrow> rat"
  statSync_size :: "sqlite_file \<Rightarrow> nat"

definition databaseFile :: string where
  "databaseFile = ''database.sqlite''"

definition maxCacheSeconds :: int where
  "maxCacheSeconds = 300"

definition maxSecondsPerTest :: int where
  "maxSecondsPerTest = 3"

definition chunkSize :: nat where
  "chunkSize = 100"

definition Date_now :: "world \<Rightarrow> error + (int \<times> world)" where
  "Date_now w =
     (case clock w of
        [] \<Rightarrow> Inl ClockExhausted
      | t # ts \<Rightarrow> Inr (t, w\<lparr>clock := ts\<rparr>))"

definition Math_random :: "'j platform \<Rightarrow> world \<Rightarrow> rat \<times> world" where
  "Math_random P w = (random_values P (draws w), w\<lparr>draws := Suc (draws w)\<rparr>)"

definition seconds :: "int \<Rightarrow> rat" where
  "seconds ms = of_int ms / 1000"

definition log_stmt :: "stmt \<Rightarrow> world \<Rightarrow> world" where
  "log_stmt s w = w\<lparr>trace := trace w @ [s]\<rparr>"

section \<open>initDatabase\<close>

definition create_table_if_not_exists :: "'r table option \<Rightarrow> 'r table option" where
  "create_table_if_not_exists t =
     (case t of None \<Rightarrow> Some \<lparr>rows = [], seq = 0\<rparr> | Some x \<Rightarrow> Some x)"

text \<open>
  \<^verbatim>\<open>db = new Database(databaseFile)\<close> opens a connection and stores it in the module
  variable, whatever the variable held; the pragmas are set on that connection; the
  two \<^verbatim>\<open>CREATE TABLE IF NOT EXISTS\<close> create what is absent. The two indexes change
  no table content.
\<close>

definition initDatabase :: "world \<Rightarrow> world" where
  "initDatabase w =
     w\<lparr>db := Some (connections w),
       connections := Suc (connections w),
       pragmas := [''journal_mode = WAL'', ''cache_size = -25000'', ''synchronous = NORMAL'',
                   ''temp_store = MEMORY'', ''mmap_size = 1000000000'', ''foreign_keys = true'',
                   ''busy_timeout = 5000'', ''auto_vacuum = INCREMENTAL''],
       dbfile := (dbfile w)\<lparr>test_results_cache := create_table_if_not_exists (test_results_cache (dbfile w)),
                         comments := create_table_if_not_exists (comments (dbfile w))\<rparr>\<rparr>"

section \<open>Statements on the comments table\<close>

text \<open>The row id of an \<^verbatim>\<open>AUTOINCREMENT\<close> insert: one more than the largest row id the
  table has ever held.\<close>

definition next_comment_id :: "comment table \<Rightarrow> int" where
  "next_comment_id t = 1 + fold max (map comment_id (rows t)) (seq t)"

text \<open>A row id is a signed 64-bit integer. When the largest one has been handed out,
  an insert into an \<^verbatim>\<open>AUTOINCREMENT\<close> table fails (\<^verbatim>\<open>SQLITE_FULL\<close>).\<close>

definition max_rowid :: int where
  "max_rowid = 2 ^ 63 - 1"

text \<open>\<^verbatim>\<open>lastInsertRowid\<close> is handed to JavaScript as a number: the double nearest to
  the row id, which is the row id itself up to \<open>2^53\<close>. A row id is below \<open>2^63\<close>, its
  double is finite and whole.\<close>

definition double_of_int :: "int \<Rightarrow> int" where
  "double_of_int i = (case round_to_double (of_int i) of Num y \<Rightarrow> \<lfloor>y\<rfloor> | _ \<Rightarrow> i)"

text \<open>\<^verbatim>\<open>insertStmt.run(author, content, testSessionId, currentTimestamp)\<close>, returning
  \<^verbatim>\<open>lastInsertRowid\<close>. The statement logged carries the row id of the new row.\<close>

definition insertStmt_run ::
  "string \<Rightarrow> string \<Rightarrow> string \<Rightarrow> int \<Rightarrow> world \<Rightarrow> error + (int \<times> world)" where
  "insertStmt_run a c s ts w =
     (case comments (dbfile w) of
        None \<Rightarrow> Inl SqliteError
      | Some t \<Rightarrow>
          (let i = next_comment_id t;
               r = \<lparr>comment_id = i, author = a, content = c, test_session = s,
                    comment_timestamp = ts\<rparr>
           in if max_rowid < i then Inl SqliteError
              else Inr (double_of_int i, log_stmt (InsertComment i)
                        (w\<lparr>dbfile := (dbfile w)\<lparr>comments := Some \<lparr>rows = rows t @ [r], seq = i\<rparr>\<rparr>\<rparr>))))"

text \<open>\<^verbatim>\<open>selectStmt.get(id)\<close>. The id is a number of JavaScript, whole here, and
  SQLite compares it with the row ids exactly. An \<^verbatim>\<open>undefined\<close> id is bound as
  \<^verbatim>\<open>NULL\<close>, and \<^verbatim>\<open>id = NULL\<close> holds of no row. The source drops the row it gets.\<close>

definition selectStmt_get :: "int option \<Rightarrow> world \<Rightarrow> error + (comment option \<times> world)" where
  "selectStmt_get i w =
     (case comments (dbfile w) of
        None \<Rightarrow> Inl SqliteError
      | Some t \<Rightarrow> Inr (find (\<lambda>r. Some (comment_id r) = i) (rows t), log_stmt (SelectComment i) w))"

text \<open>\<^verbatim>\<open>updateStmt.run(newContent, id)\<close>.\<close>

definition updateStmt_run :: "string \<Rightarrow> int option \<Rightarrow> world \<Rightarrow> error + world" where
  "updateStmt_run c i w =
     (case comments (dbfile w) of
        None \<Rightarrow> Inl SqliteError
      | Some t \<Rightarrow>
          Inr (log_stmt (UpdateComment i)
                 (w\<lparr>dbfile := (dbfile w)\<lparr>comments :=
                       Some (t\<lparr>rows := map (\<lambda>r. if Some (comment_id r) = i then r\<lparr>content := c\<rparr> else r)
                                          (rows t)\<rparr>)\<rparr>\<rparr>)))"

text \<open>\<^verbatim>\<open>deleteStmt.run(id)\<close>.\<close>

definition deleteStmt_run :: "int option \<Rightarrow> world \<Rightarrow> error + world" where
  "deleteStmt_run i w =
     (case comments (dbfile w) of
        None \<Rightarrow> Inl SqliteError
      | Some t \<Rightarrow>
          Inr (log_stmt (DeleteComment i)
                 (w\<lparr>dbfile := (dbfile w)\<lparr>comments :=
                       Some (t\<lparr>rows := filter (\<lambda>r. Some (comment_id r) \<noteq> i) (rows t)\<rparr>)\<rparr>\<rparr>)))"

text \<open>\<^verbatim>\<open>DELETE FROM comments WHERE test_session = ?\<close>.\<close>

definition delete_session :: "string \<Rightarrow> world \<Rightarrow> error + world" where
  "delete_session s w =
     (case comments (dbfile w) of
        None \<Rightarrow> Inl SqliteError
      | Some t \<Rightarrow>
          Inr (log_stmt (DeleteSession s)
                 (w\<lparr>dbfile := (dbfile w)\<lparr>comments :=
                       Some (t\<lparr>rows := filter (\<lambda>r. test_session r \<noteq> s) (rows t)\<rparr>)\<rparr>\<rparr>)))"

section \<open>runTest\<close>

text \<open>\<^verbatim>\<open>Math.random().toString(36).substring(2, 2 + Math.floor(Math.random() * n) + m)\<close>.\<close>

definition random_string :: "'j platform \<Rightarrow> rat \<Rightarrow> int \<Rightarrow> world \<Rightarrow> string \<times> world" where
  "random_string P n m w =
     (let (r1, w1) = Math_random P w;
          (r2, w2) = Math_random P w1
      in (substring (toString36 P r1) 2 (2 + \<lfloor>r2 * n\<rfloor> + m), w2))"

text \<open>The body of the transaction: \<^verbatim>\<open>for (let j = 0; j < chunkSize; j++)\<close>, counted
  by the iterations that remain.\<close>

fun insert_rows ::
  "'j platform \<Rightarrow> nat \<Rightarrow> string \<Rightarrow> int \<Rightarrow> int list \<times> nat \<times> world \<Rightarrow> error + (int list \<times> nat \<times> world)"
  where
  "insert_rows P 0 sid ts s = Inr s"
| "insert_rows P (Suc k) sid ts (newRecords, writes', w) =
     (let (author', w1) = random_string P 16 5 w;
          (content', w2) = random_string P 91 10 w1
      in case insertStmt_run author' content' sid ts w2 of
           Inl e \<Rightarrow> Inl e
         | Inr (rowid, w3) \<Rightarrow> insert_rows P k sid ts (newRecords @ [rowid], Suc writes', w3))"

text \<open>No statement and no random draw reads the clock.\<close>

lemma clock_Math_random: "clock (snd (Math_random P w)) = clock w"
  by (simp add: Math_random_def)

lemma clock_random_string: "clock (snd (random_string P n m w)) = clock w"
  by (simp add: random_string_def Math_random_def Let_def)

lemma clock_insertStmt_run: "insertStmt_run a c s ts w = Inr (i, w') \<Longrightarrow> clock w' = clock w"
  by (auto simp: insertStmt_run_def log_stmt_def Let_def split: option.splits if_splits)

lemma clock_selectStmt_get: "selectStmt_get i w = Inr (r, w') \<Longrightarrow> clock w' = clock w"
  by (auto simp: selectStmt_get_def log_stmt_def split: option.splits)

lemma clock_updateStmt_run: "updateStmt_run c i w = Inr w' \<Longrightarrow> clock w' = clock w"
  by (auto simp: updateStmt_run_def log_stmt_def split: option.splits)

lemma clock_deleteStmt_run: "deleteStmt_run i w = Inr w' \<Longrightarrow> clock w' = clock w"
  by (auto simp: deleteStmt_run_def log_stmt_def split: option.splits)

lemma clock_insert_rows:
  "insert_rows P k sid ts (xs, n, w) = Inr (xs', n', w') \<Longrightarrow> clock w' = clock w"
proof (induction k arbitrary: xs n w)
  case 0
  then show ?case by simp
next
  case (Suc k)
  obtain a w1 where a: "random_string P 16 5 w = (a, w1)" by (cases "random_string P 16 5 w")
  obtain c w2 where c: "random_string P 91 10 w1 = (c, w2)" by (cases "random_string P 91 10 w1")
  from Suc.prems a c obtain i w3 where
    ins: "insertStmt_run a c sid ts w2 = Inr (i, w3)" and
    rec: "insert_rows P k sid ts (xs @ [i], Suc n, w3) = Inr (xs', n', w')"
    by (auto split: sum.splits)
  have "clock w1 = clock w" using clock_random_string [of P 16 5 w] a by simp
  moreover have "clock w2 = clock w1" using clock_random_string [of P 91 10 w1] c by simp
  moreover have "clock w3 = clock w2" using ins by (rule clock_insertStmt_run)
  moreover have "clock w' = clock w3" using rec by (rule Suc.IH)
  ultimately show ?case by simp
qed

lemma clock_Date_now: "Date_now w = Inr (t, w') \<Longrightarrow> length (clock w') < length (clock w)"
  by (auto simp: Date_now_def split: list.splits)

text \<open>
  The write phase: \<^verbatim>\<open>while ((Date.now() / 1000) - writeStart < maxDuration)\<close>, each
  iteration one transaction of \<open>chunkSize\<close> inserts. A transaction whose body throws
  is rolled back and the error rethrown; the call then ends without a result.
\<close>

function write_loop ::
  "'j platform \<Rightarrow> rat \<Rightarrow> string \<Rightarrow> int \<Rightarrow> int list \<times> nat \<times> world \<Rightarrow> error + (int list \<times> nat \<times> world)"
  where
  "write_loop P writeStart sid ts (newRecords, writes', w) =
     (case Date_now w of
        Inl e \<Rightarrow> Inl e
      | Inr (now, w1) \<Rightarrow>
          if seconds now - writeStart < of_int maxSecondsPerTest
          then (case insert_rows P chunkSize sid ts (newRecords, writes', w1) of
                  Inl e \<Rightarrow> Inl e
                | Inr s \<Rightarrow> write_loop P writeStart sid ts s)
          else Inr (newRecords, writes', w1))"
  by pat_completeness auto
termination
proof (relation "measure (\<lambda>(P, writeStart, sid, ts, newRecords, writes', w). length (clock w))")
  show "wf (measure (\<lambda>(P, writeStart, sid, ts, newRecords, writes', w). length (clock w)))"
    by simp
next
  fix P :: "'j platform" and writeStart sid ts newRecords writes' w x now w1 s
  assume "Date_now w = Inr x" "(now, w1) = x"
    and "insert_rows P chunkSize sid ts (newRecords, writes', w1) = Inr s"
  then show "((P, writeStart, sid, ts, s), P, writeStart, sid, ts, newRecords, writes', w)
      \<in> measure (\<lambda>(P, writeStart, sid, ts, newRecords, writes', w). length (clock w))"
    using clock_Date_now [of w now w1] clock_insert_rows [of P chunkSize sid ts newRecords writes' w1]
    by (cases s) auto
qed

text \<open>The read phase: \<^verbatim>\<open>while (readDuration < maxDuration)\<close>.\<close>

function read_loop ::
  "'j platform \<Rightarrow> rat \<Rightarrow> int list \<Rightarrow> nat \<times> rat \<times> world \<Rightarrow> error + (nat \<times> rat \<times> world)"
  where
  "read_loop P readStart newRecords (reads', readDuration, w) =
     (if readDuration < of_int maxSecondsPerTest then
        (case selectStmt_get
                (js_index newRecords \<lfloor>fst (Math_random P w) * of_nat (length newRecords)\<rfloor>)
                (snd (Math_random P w)) of
           Inl e \<Rightarrow> Inl e
         | Inr (row, w2) \<Rightarrow>
             (case Date_now w2 of
                Inl e \<Rightarrow> Inl e
              | Inr (now, w3) \<Rightarrow>
                  read_loop P readStart newRecords (Suc reads', seconds now - readStart, w3)))
      else Inr (reads', readDuration, w))"
  by pat_completeness auto
termination
proof (relation "measure (\<lambda>(P, readStart, newRecords, reads', readDuration, w). length (clock w))")
  show "wf (measure (\<lambda>(P, readStart, newRecords, reads', readDuration, w). length (clock w)))"
    by simp
next
  fix P :: "'j platform" and readStart newRecords reads' readDuration w x row w2 y now w3
  assume "selectStmt_get
            (js_index newRecords \<lfloor>fst (Math_random P w) * of_nat (length newRecords)\<rfloor>)
            (snd (Math_random P w)) = Inr x"
    and "(row, w2) = x" and "Date_now w2 = Inr y" and "(now, w3) = y"
  then show "((P, readStart, newRecords, Suc reads', seconds now - readStart, w3),
              P, readStart, newRecords, reads', readDuration, w)
      \<in> measure (\<lambda>(P, readStart, newRecords, reads', readDuration, w). length (clock w))"
    using clock_Date_now [of w2 now w3] clock_Math_random [of P w]
      clock_selectStmt_get [of _ "snd (Math_random P w)" row w2]
    by auto
qed

text \<open>The update phase: the index is drawn first, then the new content.\<close>

function update_loop ::
  "'j platform \<Rightarrow> rat \<Rightarrow> int list \<Rightarrow> nat \<times> rat \<times> world \<Rightarrow> error + (nat \<times> rat \<times> world)"
  where
  "update_loop P updateStart newRecords (updates', updateDuration, w) =
     (if updateDuration < of_int maxSecondsPerTest then
        (case updateStmt_run
                (fst (random_string P 91 10 (snd (Math_random P w))))
                (js_index newRecords \<lfloor>fst (Math_random P w) * of_nat (length newRecords)\<rfloor>)
                (snd (random_string P 91 10 (snd (Math_random P w)))) of
           Inl e \<Rightarrow> Inl e
         | Inr w2 \<Rightarrow>
             (case Date_now w2 of
                Inl e \<Rightarrow> Inl e
              | Inr (now, w3) \<Rightarrow>
                  update_loop P updateStart newRecords (Suc updates', seconds now - updateStart, w3)))
      else Inr (updates', updateDuration, w))"
  by pat_completeness auto
termination
proof (relation "measure (\<lambda>(P, updateStart, newRecords, updates', updateDuration, w). length (clock w))")
  show "wf (measure (\<lambda>(P, updateStart, newRecords, updates', updateDuration, w). length (clock w)))"
    by simp
next
  fix P :: "'j platform" and updateStart newRecords updates' updateDuration w w2 y now w3
  assume "updateStmt_run
            (fst (random_string P 91 10 (snd (Math_random P w))))
            (js_index newRecords \<lfloor>fst (Math_random P w) * of_nat (length newRecords)\<rfloor>)
            (snd (random_string P 91 10 (snd (Math_random P w)))) = Inr w2"
    and "Date_now w2 = Inr y" and "(now, w3) = y"
  then show "((P, updateStart, newRecords, Suc updates', seconds now - updateStart, w3),
              P, updateStart, newRecords, updates', updateDuration, w)
      \<in> measure (\<lambda>(P, updateStart, newRecords, updates', updateDuration, w). length (clock w))"
    using clock_Date_now [of w2 now w3] clock_Math_random [of P w]
      clock_random_string [of P 91 10 "snd (Math_random P w)"]
      clock_updateStmt_run [of _ _ "snd (random_string P 91 10 (snd (Math_random P w)))" w2]
    by auto
qed

text \<open>The delete phase: \<^verbatim>\<open>while (deleteDuration < maxDuration && newRecords.length > 0)\<close>,
  each iteration popping the last identifier.\<close>

function delete_loop ::
  "rat \<Rightarrow> int list \<times> nat \<times> rat \<times> world \<Rightarrow> error + (int list \<times> nat \<times> rat \<times> world)"
  where
  "delete_loop deleteStart (newRecords, deletes', deleteDuration, w) =
     (if deleteDuration < of_int maxSecondsPerTest \<and> length newRecords > 0 then
        (case deleteStmt_run (Some (last newRecords)) w of
           Inl e \<Rightarrow> Inl e
         | Inr w1 \<Rightarrow>
             (case Date_now w1 of
                Inl e \<Rightarrow> Inl e
              | Inr (now, w2) \<Rightarrow>
                  delete_loop deleteStart
                    (butlast newRecords, Suc deletes', seconds now - deleteStart, w2)))
      else Inr (newRecords, deletes', deleteDuration, w))"
  by pat_completeness auto
termination
  by (relation "measure (\<lambda>(deleteStart, newRecords, deletes', deleteDuration, w). length newRecords)")
     auto

text \<open>Sequencing of steps that may throw: the first error ends the call.\<close>

definition then_do :: "error + 'a \<Rightarrow> ('a \<Rightarrow> error + 'b) \<Rightarrow> error + 'b" where
  "then_do m f = (case m of Inl e \<Rightarrow> Inl e | Inr x \<Rightarrow> f x)"

text \<open>Lines 99 to 115: the write phase returns \<open>writeStart\<close>, the known identifiers,
  the counter and the rate.\<close>

definition write_phase ::
  "'j platform \<Rightarrow> string \<Rightarrow> int \<Rightarrow> world \<Rightarrow> error + (rat \<times> int list \<times> nat \<times> number \<times> world)"
  where
  "write_phase P sid ts w =
     then_do (Date_now w) (\<lambda>(t0, w1).
     then_do (write_loop P (seconds t0) sid ts ([], 0, w1)) (\<lambda>(newRecords, writes', w2).
     then_do (Date_now w2) (\<lambda>(t1, w3).
       Inr (seconds t0, newRecords, writes',
            Math_round (divide_js (of_nat writes') (seconds t1 - seconds t0)), w3))))"

text \<open>Lines 117 to 127.\<close>

definition read_phase ::
  "'j platform \<Rightarrow> int list \<Rightarrow> world \<Rightarrow> error + (nat \<times> number \<times> world)" where
  "read_phase P newRecords w =
     then_do (Date_now w) (\<lambda>(t0, w1).
     then_do (read_loop P (seconds t0) newRecords (0, 0, w1)) (\<lambda>(reads', readDuration, w2).
       Inr (reads', Math_round (divide_js (of_nat reads') readDuration), w2)))"

text \<open>Lines 129 to 140.\<close>

definition update_phase ::
  "'j platform \<Rightarrow> int list \<Rightarrow> world \<Rightarrow> error + (nat \<times> number \<times> world)" where
  "update_phase P newRecords w =
     then_do (Date_now w) (\<lambda>(t0, w1).
     then_do (update_loop P (seconds t0) newRecords (0, 0, w1)) (\<lambda>(updates', updateDuration, w2).
       Inr (updates', Math_round (divide_js (of_nat updates') updateDuration), w2)))"

text \<open>Lines 142 to 152; the identifiers left in \<open>newRecords\<close> are returned as well.\<close>

definition delete_phase ::
  "int list \<Rightarrow> world \<Rightarrow> error + (int list \<times> nat \<times> rat \<times> number \<times> world)" where
  "delete_phase newRecords w =
     then_do (Date_now w) (\<lambda>(t0, w1).
     then_do (delete_loop (seconds t0) (newRecords, 0, 0, w1)) (\<lambda>(rest, deletes', deleteDuration, w2).
       Inr (rest, deletes', deleteDuration,
            Math_round (divide_js (of_nat deletes') deleteDuration), w2)))"

text \<open>\<^verbatim>\<open>db.prepare\<close> of a statement on \<^verbatim>\<open>comments\<close> throws when the table is absent.\<close>

definition prepare_comments :: "world \<Rightarrow> error + world" where
  "prepare_comments w = (case comments (dbfile w) of None \<Rightarrow> Inl SqliteError | Some t \<Rightarrow> Inr w)"

definition runTest :: "'j platform \<Rightarrow> world \<Rightarrow> error + (WorkloadResult \<times> world)" where
  "runTest P w =
     then_do (Date_now w) (\<lambda>(t_session, w1).
     then_do (Date_now w1) (\<lambda>(t_stamp, w2).
     then_do (prepare_comments w2) (\<lambda>w3.
     then_do (write_phase P (''test_'' @ show_int t_session) \<lfloor>seconds t_stamp\<rfloor> w3)
       (\<lambda>(writeStart, newRecords, writes', writesPerSecond', w4).
     then_do (read_phase P newRecords w4) (\<lambda>(reads', readsPerSecond', w5).
     then_do (update_phase P newRecords w5) (\<lambda>(updates', updatesPerSecond', w6).
     then_do (delete_phase newRecords w6) (\<lambda>(rest, deletes', deleteDuration, deletesPerSecond', w7).
     then_do (delete_session (''test_'' @ show_int t_session) w7) (\<lambda>w8.
     then_do (Date_now w8) (\<lambda>(t_end, w9).
       Inr (\<lparr>dbSizeInMb =
               div_const (Math_round (times_const
                 (divide_js (of_nat (statSync_size P (dbfile w8))) (1024 * 1024)) 100)) 100,
             totalOperations = writes' + reads' + updates' + deletes',
             operationsPerSecond =
               Math_round (divide_js (of_nat (writes' + reads' + updates' + deletes'))
                                     (of_int (maxSecondsPerTest * 4))),
             writes = writes',
             writesPerSecond = writesPerSecond',
             reads = reads',
             readsPerSecond = readsPerSecond',
             updates = updates',
             updatesPerSecond = updatesPerSecond',
             deletes = deletes',
             deletesPerSecond = deletesPerSecond',
             duration =
               div_const (Math_round (times_const (Num (seconds t_end - writeStart)) 100)) 100\<rparr>,
            w9))))))))))"

section \<open>getCachedTest\<close>

text \<open>
  \<^verbatim>\<open>SELECT * FROM test_results_cache ORDER BY timestamp DESC LIMIT 1\<close>: a row with the
  greatest timestamp, and among those (the order of the index on \<open>timestamp\<close>) the
  one with the greatest row id; \<open>None\<close> when the table is empty.
\<close>

fun most_recent :: "cache_row list \<Rightarrow> cache_row option" where
  "most_recent [] = None"
| "most_recent (r # rs) =
     (case most_recent rs of
        None \<Rightarrow> Some r
      | Some m \<Rightarrow>
          if timestamp m < timestamp r \<or> (timestamp m = timestamp r \<and> cache_id m < cache_id r)
          then Some r else Some m)"

definition select_cache :: "world \<Rightarrow> error + (cache_row option \<times> world)" where
  "select_cache w =
     (case test_results_cache (dbfile w) of
        None \<Rightarrow> Inl SqliteError
      | Some t \<Rightarrow> Inr (most_recent (rows t), log_stmt SelectCache w))"

text \<open>\<^verbatim>\<open>DELETE FROM test_results_cache\<close>.\<close>

definition delete_cache :: "world \<Rightarrow> error + world" where
  "delete_cache w =
     (case test_results_cache (dbfile w) of
        None \<Rightarrow> Inl SqliteError
      | Some t \<Rightarrow>
          Inr (log_stmt DeleteCache
                 (w\<lparr>dbfile := (dbfile w)\<lparr>test_results_cache := Some (t\<lparr>rows := []\<rparr>)\<rparr>\<rparr>)))"

definition next_cache_id :: "cache_row table \<Rightarrow> int" where
  "next_cache_id t = 1 + fold max (map cache_id (rows t)) (seq t)"

text \<open>\<^verbatim>\<open>INSERT INTO test_results_cache (result, timestamp) VALUES (?, ?)\<close>.\<close>

definition insert_cache :: "string \<Rightarrow> int \<Rightarrow> world \<Rightarrow> error + world" where
  "insert_cache res ts w =
     (case test_results_cache (dbfile w) of
        None \<Rightarrow> Inl SqliteError
      | Some t \<Rightarrow>
          (let i = next_cache_id t
           in if max_rowid < i then Inl SqliteError
              else Inr (log_stmt (InsertCache i)
                     (w\<lparr>dbfile := (dbfile w)\<lparr>test_results_cache :=
                           Some \<lparr>rows = rows t @ [\<lparr>cache_id = i, result = res, timestamp = ts\<rparr>],
                                 seq = i\<rparr>\<rparr>\<rparr>))))"

text \<open>What \<^verbatim>\<open>getCachedTest\<close> returns: the value \<^verbatim>\<open>JSON.parse\<close> made of the stored
  text, or the object \<^verbatim>\<open>runTest\<close> has just built.\<close>

datatype 'j reply = FromCache 'j | FromRun WorkloadResult

text \<open>Lines 73 to 81, reached when there is no cached row or the row is too old.\<close>

definition run_and_store :: "'j platform \<Rightarrow> world \<Rightarrow> error + ('j reply \<times> world)" where
  "run_and_store P w =
     then_do (runTest P w) (\<lambda>(testResult, w1).
     then_do (delete_cache w1) (\<lambda>w2.
     then_do (Date_now w2) (\<lambda>(now, w3).
     then_do (insert_cache (JSON_stringify P testResult) \<lfloor>seconds now\<rfloor> w3) (\<lambda>w4.
       Inr (FromRun testResult, w4)))))"

text \<open>The clock is read for the freshness test only when a row was found
  (\<^verbatim>\<open>cachedResult && ...\<close>). The \<^verbatim>\<open>catch\<close> rethrows.\<close>

definition getCachedTest :: "'j platform \<Rightarrow> world \<Rightarrow> error + ('j reply \<times> world)" where
  "getCachedTest P w =
     then_do (select_cache (initDatabase w)) (\<lambda>(cachedResult, w1).
       case cachedResult of
         None \<Rightarrow> run_and_store P w1
       | Some row \<Rightarrow>
           then_do (Date_now w1) (\<lambda>(now, w2).
             if seconds now - of_int (timestamp row) < of_int maxCacheSeconds
             then (case JSON_parse P (result row) of
                     None \<Rightarrow> Inl SyntaxError
                   | Some v \<Rightarrow> Inr (FromCache v, w2))
             else run_and_store P w2))"

section \<open>getServerSpecs\<close>

text \<open>What the \<^verbatim>\<open>os\<close> module reports: the model string of each logical CPU, the
  platform, architecture and release, total and free memory in bytes, and the
  one-minute load average.\<close>

record host =
  cpus :: "string list"
  os_platform :: string
  os_arch :: string
  os_release :: string
  totalmem :: nat
  freemem :: nat
  loadavg :: rat

text \<open>
  A template literal that interpolates a number, such as \<^verbatim>\<open>`${x}%`\<close>, is kept as its
  parts: the number converted and the literal text. The digits of the conversion are
  not modelled; different numbers are converted to different texts.
\<close>

datatype piece = Shown number | Text string

type_synonym template = "piece list"

record ServerSpecs =
  vCPUs :: nat
  CPU_model :: string
  Platform :: string
  Total_RAM :: template
  CPU_usage :: template
  Memory_usage :: template

text \<open>Line 188 and 189, before the number is put into the template literal.\<close>

definition cpuUsagePercent :: "host \<Rightarrow> number" where
  "cpuUsagePercent h =
     divide_double (Math_round (times_double
       (divide_double (Num (loadavg h)) (of_nat (length (cpus h)))) 1000)) 10"

text \<open>Line 191 and 192.\<close>

definition memoryUsagePercent :: "host \<Rightarrow> number" where
  "memoryUsagePercent h =
     divide_double (Math_round (times_double
       (divide_double (minus_double (of_nat (totalmem h)) (of_nat (freemem h)))
          (of_nat (totalmem h))) 1000)) 10"

definition getServerSpecs :: "host \<Rightarrow> ServerSpecs" where
  "getServerSpecs h =
     \<lparr>vCPUs = length (cpus h),
      CPU_model = (case cpus h of [] \<Rightarrow> ''Unknown''
                   | m # ms \<Rightarrow> if m = [] then ''Unknown'' else m),
      Platform = os_platform h @ '', '' @ os_arch h @ '', '' @ os_release h,
      Total_RAM =
        [Shown (Math_round (divide_double (Num (of_nat (totalmem h))) (1024 * 1024 * 1024))),
         Text ''GB''],
      CPU_usage = [Shown (cpuUsagePercent h), Text ''%''],
      Memory_usage = [Shown (memoryUsagePercent h), Text ''%'']\<rparr>"

section \<open>Notions used in the statements\<close>

text \<open>The rows of a table of the file; a table that does not exist has none.\<close>

definition cache_rows :: "sqlite_file \<Rightarrow> cache_row list" where
  "cache_rows f = (case test_results_cache f of None \<Rightarrow> [] | Some t \<Rightarrow> rows t)"

definition comment_rows :: "sqlite_file \<Rightarrow> comment list" where
  "comment_rows f = (case comments f of None \<Rightarrow> [] | Some t \<Rightarrow> rows t)"

text \<open>The row the \<^verbatim>\<open>SELECT\<close> of \<^verbatim>\<open>getCachedTest\<close> will find.\<close>

definition cached_row :: "world \<Rightarrow> cache_row option" where
  "cached_row w = most_recent (cache_rows (dbfile w))"

text \<open>
  \<open>high\<close> is the largest row id the comments table has ever held; \<open>ids_from h k\<close>
  are the \<open>k\<close> row ids handed out after it; \<open>steady\<close> says that a step has kept the
  connection, the cache table and the existence of the comments table.
\<close>

definition high :: "comment table \<Rightarrow> int" where
  "high t = fold max (map comment_id (rows t)) (seq t)"

definition ids_from :: "int \<Rightarrow> nat \<Rightarrow> int list" where
  "ids_from h k = map (\<lambda>j. h + 1 + int j) [0..<k]"

text \<open>
  \<open>comment_high\<close> and \<open>cache_seq\<close> read the largest row id handed out from a file, 0 for
  a table that does not exist. \<open>same_row\<close> relates two rows that differ in their content
  at most, and \<open>kept old new\<close> says that every row of \<open>new\<close> is, up to its content, a row
  of \<open>old\<close>: rows were rewritten or removed, none was added.
\<close>

definition comment_high :: "sqlite_file \<Rightarrow> int" where
  "comment_high f = (case comments f of None \<Rightarrow> 0 | Some t \<Rightarrow> high t)"

definition cache_seq :: "sqlite_file \<Rightarrow> int" where
  "cache_seq f = (case test_results_cache f of None \<Rightarrow> 0 | Some t \<Rightarrow> seq t)"

definition same_row :: "comment \<Rightarrow> comment \<Rightarrow> bool" where
  "same_row a b \<longleftrightarrow>
     comment_id a = comment_id b \<and> author a = author b \<and> test_session a = test_session b \<and>
     comment_timestamp a = comment_timestamp b"

definition kept :: "comment list \<Rightarrow> comment list \<Rightarrow> bool" where
  "kept old new \<longleftrightarrow> (\<forall>row\<in>set new. \<exists>before\<in>set old. same_row before row)"

definition steady :: "world \<Rightarrow> world \<Rightarrow> bool" where
  "steady w w' \<longleftrightarrow>
     db w' = db w \<and> connections w' = connections w \<and> pragmas w' = pragmas w \<and>
     test_results_cache (dbfile w') = test_results_cache (dbfile w) \<and>
     (comments (dbfile w) \<noteq> None \<longrightarrow> comments (dbfile w') \<noteq> None)"


text \<open>The statements a call has run, none when it has thrown; and the identifiers that
  the \<^verbatim>\<open>DELETE ... WHERE id = ?\<close> statements of a trace were given, in order.\<close>

definition statements_run :: "error + ('a \<times> world) \<Rightarrow> stmt list" where
  "statements_run m = (case m of Inl e \<Rightarrow> [] | Inr (r, w) \<Rightarrow> trace w)"

fun deleted_ids :: "stmt list \<Rightarrow> int option list" where
  "deleted_ids [] = []"
| "deleted_ids (DeleteComment i # ss) = i # deleted_ids ss"
| "deleted_ids (s # ss) = deleted_ids ss"

text \<open>The identifiers a phase can draw from \<open>newRecords\<close>:
  \<^verbatim>\<open>newRecords[Math.floor(Math.random() * newRecords.length)]\<close> over all draws.\<close>

definition picks :: "'j platform \<Rightarrow> int list \<Rightarrow> int option set" where
  "picks P nr = range (\<lambda>k. js_index nr \<lfloor>random_values P k * of_nat (length nr)\<rfloor>)"

text \<open>
  The states the service is called in: a process starts on a database file that has no
  cache table yet; and after a call of \<open>getCachedTest\<close> has returned, a next call is
  made on the file that call left, in the same process or in a later one, at whatever
  the clock then shows.
\<close>

inductive served :: "'j platform \<Rightarrow> world \<Rightarrow> bool" for P :: "'j platform" where
  new_file: "test_results_cache (dbfile w) = None \<Longrightarrow> served P w"
| after_call:
    "served P w \<Longrightarrow> getCachedTest P w = Inr (reply, w') \<Longrightarrow> dbfile w'' = dbfile w' \<Longrightarrow>
     served P w''"

section \<open>A platform, processes, clocks and hosts for the examples\<close>

text \<open>A platform whose \<^verbatim>\<open>JSON.parse\<close> returns the text it is given and whose random
  values cycle through 0, 1/4, 1/2 and 3/4; and a process that has opened the database
  once, both tables empty, with the given clock readings ahead of it.\<close>

definition demo_platform :: "string platform" where
  "demo_platform =
     \<lparr>JSON_parse = Some,
      JSON_stringify = (\<lambda>r. ''{writes:'' @ show_int (int (writes r)) @ ''}''),
      toString36 = (\<lambda>r. ''0.k3j9x2m7q8w1''),
      random_values = (\<lambda>k. of_nat (k mod 4) / 4),
      statSync_size = (\<lambda>f. 4096)\<rparr>"

definition opened_world :: "int list \<Rightarrow> world" where
  "opened_world readings =
     \<lparr>db = Some 0, connections = 1, pragmas = [],
      dbfile = \<lparr>test_results_cache = Some \<lparr>rows = [], seq = 0\<rparr>,
                comments = Some \<lparr>rows = [], seq = 0\<rparr>\<rparr>,
      clock = readings, draws = 0, trace = []\<rparr>"

text \<open>A process that has not opened the database, whose file is new.\<close>

definition new_world :: "int list \<Rightarrow> world" where
  "new_world readings =
     \<lparr>db = None, connections = 0, pragmas = [],
      dbfile = \<lparr>test_results_cache = None, comments = None\<rparr>,
      clock = readings, draws = 0, trace = []\<rparr>"

text \<open>A process whose cache table holds one result, stored at second 1000.\<close>

definition cached_world :: "int list \<Rightarrow> world" where
  "cached_world readings =
     (opened_world readings)
       \<lparr>dbfile := \<lparr>test_results_cache =
                     Some \<lparr>rows = [\<lparr>cache_id = 1, result = ''{writes:100}'', timestamp = 1000\<rparr>],
                           seq = 1\<rparr>,
                   comments = Some \<lparr>rows = [], seq = 100\<rparr>\<rparr>\<rparr>"

text \<open>The clock readings of a run that starts at \<open>T\<close> and performs one iteration in
  each phase: the write loop's second test, and the first duration measured in each of
  the other loops, find the three seconds elapsed.\<close>

definition run_clock :: "int \<Rightarrow> int list" where
  "run_clock T =
     [T, T, T, T + 1, T + 3000, T + 3000, T + 3000, T + 6000, T + 6000, T + 9000, T + 9000,
      T + 12000, T + 12000]"


text \<open>The same, with two iterations of the delete loop.\<close>

definition two_delete_clock :: "int \<Rightarrow> int list" where
  "two_delete_clock T =
     [T, T, T, T + 1, T + 3000, T + 3000, T + 3000, T + 6000, T + 6000, T + 9000, T + 9000,
      T + 9001, T + 12000, T + 12000]"

text \<open>A process on a file whose comments table has handed out the row ids up to
  \<open>2^53\<close>.\<close>

definition crowded_world :: "int list \<Rightarrow> world" where
  "crowded_world readings =
     (opened_world readings)
       \<lparr>dbfile := \<lparr>test_results_cache = Some \<lparr>rows = [], seq = 0\<rparr>,
                   comments = Some \<lparr>rows = [], seq = 9007199254740992\<rparr>\<rparr>\<rparr>"


text \<open>Two readings of one machine: four logical CPUs, first with a one-minute load
  average of 8, then with one of 0.5 and more free memory.\<close>

definition busy_host :: host where
  "busy_host = \<lparr>cpus = [''Example CPU'', ''Example CPU'', ''Example CPU'', ''Example CPU''],
     os_platform = ''linux'', os_arch = ''x64'', os_release = ''6.1.0'',
     totalmem = 8000000000, freemem = 2000000000, loadavg = 8\<rparr>"

definition calm_host :: host where
  "calm_host = busy_host\<lparr>freemem := 3000000000, loadavg := 1 / 2\<rparr>"

section \<open>Basic facts\<close>

lemma then_do_Inr: "then_do m f = Inr y \<longleftrightarrow> (\<exists>x. m = Inr x \<and> f x = Inr y)"
  by (cases m) (auto simp: then_do_def)

lemma floor_rat_numeral [simp]:
  "\<lfloor>(numeral a :: rat) / numeral b\<rfloor> = numeral a div numeral b"
  using floor_divide_of_int_eq [of "numeral a" "numeral b", where ?'a = rat] by simp

lemma round_twelfths: "\<lfloor>(of_nat n :: rat) / 12 + 1 / 2\<rfloor> = (int n + 6) div 12"
proof -
  have "(of_nat n :: rat) / 12 + 1 / 2 = of_int (int n + 6) / of_int 12"
    by (simp add: field_simps)
  then show ?thesis
    by (simp only: floor_divide_of_int_eq)
qed

subsection \<open>Rounding to the nearest double\<close>

lemma bitlen_powi:
  assumes "0 < a"
  shows "2 powi (bitlen a - 1) \<le> (of_int a :: rat)" "(of_int a :: rat) < 2 powi bitlen a"
proof -
  from assms have l: "1 \<le> bitlen a" by (auto simp: bitlen_alt_def)
  from bitlen_bounds [OF assms] have b: "2 ^ nat (bitlen a - 1) \<le> a" "a < 2 ^ nat (bitlen a)"
    by simp_all
  have "(2::rat) powi (bitlen a - 1) = of_int (2 ^ nat (bitlen a - 1))"
    using l by (simp add: power_int_nonneg_exp)
  also have "\<dots> \<le> of_int a" using b(1) by (simp only: of_int_le_iff)
  finally show "2 powi (bitlen a - 1) \<le> (of_int a :: rat)" .
  have "(of_int a :: rat) < of_int (2 ^ nat (bitlen a))" using b(2) by (simp only: of_int_less_iff)
  also have "\<dots> = 2 powi bitlen a" using l by (simp add: power_int_nonneg_exp)
  finally show "(of_int a :: rat) < 2 powi bitlen a" .
qed

lemma exponent_bounds:
  assumes "0 < x"
  shows "2 powi exponent x \<le> x" "x < 2 powi (exponent x + 1)"
proof -
  obtain a b where q: "quotient_of x = (a, b)" by (cases "quotient_of x")
  have b: "0 < b" using quotient_of_denom_pos [OF q] .
  have x: "x = of_int a / of_int b" using quotient_of_div [OF q] .
  have a: "0 < a" using assms x b by (simp add: zero_less_divide_iff)
  let ?d = "bitlen a - bitlen b"
  note A = bitlen_powi [OF a] and B = bitlen_powi [OF b]
  have b': "0 < (of_int b :: rat)" using b by simp
  have "2 powi (?d - 1) * (of_int b :: rat) < 2 powi (?d - 1) * 2 powi bitlen b"
    using B(2) by (intro mult_strict_left_mono) simp_all
  also have "\<dots> = 2 powi (bitlen a - 1)"
    by (simp flip: power_int_add)
  also have "\<dots> \<le> of_int a" by (rule A(1))
  finally have lo: "2 powi (?d - 1) < x" using b' x by (simp add: pos_less_divide_eq)
  have "of_int a < (2::rat) powi bitlen a" by (rule A(2))
  also have "\<dots> = 2 powi (?d + 1) * 2 powi (bitlen b - 1)"
    by (simp flip: power_int_add)
  also have "\<dots> \<le> 2 powi (?d + 1) * of_int b"
    using B(1) by (intro mult_left_mono) simp_all
  finally have hi: "x < 2 powi (?d + 1)" using b' x by (simp add: pos_divide_less_eq)
  have e: "exponent x = (if 2 powi ?d \<le> x then ?d else ?d - 1)"
    using q by (simp add: exponent_def)
  show "2 powi exponent x \<le> x" using lo e by (simp add: less_imp_le)
  show "x < 2 powi (exponent x + 1)" using hi e by (simp add: not_le)
qed

lemma exponent_unique:
  assumes "2 powi k \<le> x" "x < 2 powi (k + 1)"
  shows "exponent x = k"
proof -
  have "(0::rat) < 2 powi k" by simp
  with assms(1) have x: "0 < x" by linarith
  note e = exponent_bounds [OF x]
  have "(2::rat) powi exponent x < 2 powi (k + 1)" using e(1) assms(2) by linarith
  then have 1: "exponent x < k + 1"
    using power_int_increasing [of "k + 1" "exponent x" "2::rat"]
    by (cases "k + 1 \<le> exponent x") auto
  have "(2::rat) powi k < 2 powi (exponent x + 1)" using e(2) assms(1) by linarith
  then have 2: "k < exponent x + 1"
    using power_int_increasing [of "exponent x + 1" k "2::rat"]
    by (cases "exponent x + 1 \<le> k") auto
  from 1 2 show ?thesis by simp
qed

lemma round_half_even_bounds:
  "\<lfloor>z\<rfloor> \<le> round_half_even z" "round_half_even z \<le> \<lfloor>z\<rfloor> + 1"
  by (simp_all add: round_half_even_def Let_def)

lemma round_half_even_int [simp]: "round_half_even (of_int n) = n"
  by (simp add: round_half_even_def)

lemma round_half_even_le:
  assumes "z \<le> of_int n"
  shows "round_half_even z \<le> n"
proof (cases "z = of_int n")
  case True
  then show ?thesis by simp
next
  case False
  with assms have "z < of_int n" by simp
  then have "\<lfloor>z\<rfloor> < n" by (simp add: floor_less_iff)
  with round_half_even_bounds(2) [of z] show ?thesis by simp
qed

lemma round_half_even_nonneg: "0 \<le> z \<Longrightarrow> 0 \<le> round_half_even z"
  using round_half_even_bounds(1) [of z] by (simp add: order_trans [of 0 "\<lfloor>z\<rfloor>"])

text \<open>A non-negative quotient is rounded to a non-negative double or overflows.\<close>

lemma round_to_double_nonneg:
  assumes "0 \<le> x"
  shows "(\<exists>y. round_to_double x = Num y \<and> 0 \<le> y) \<or> round_to_double x = PosInfinity"
proof (cases "x = 0")
  case True
  then show ?thesis by (simp add: round_to_double_def)
next
  case False
  with assms have x: "0 < x" by simp
  let ?q = "(2::rat) powi (max (exponent \<bar>x\<bar>) (- 1022) - 52)"
  have q: "0 < ?q" by simp
  have "0 \<le> \<bar>x\<bar> / ?q" using q by simp
  then have "0 \<le> round_half_even (\<bar>x\<bar> / ?q)" by (rule round_half_even_nonneg)
  then have "0 \<le> of_int (round_half_even (\<bar>x\<bar> / ?q)) * ?q" using q by simp
  with x show ?thesis by (simp add: round_to_double_def Let_def)
qed

text \<open>Rounding does not pass a whole number below \<open>2^53\<close>.\<close>

lemma round_to_double_le:
  assumes "0 \<le> x" and "x \<le> of_int r" and "r < 2 ^ 53"
  shows "\<exists>y. round_to_double x = Num y \<and> 0 \<le> y \<and> y \<le> of_int r"
proof (cases "x = 0")
  case True
  with assms show ?thesis by (simp add: round_to_double_def)
next
  case False
  with assms have x: "0 < x" by simp
  let ?e = "max (exponent \<bar>x\<bar>) (- 1022)"
  let ?q = "(2::rat) powi (?e - 52)"
  let ?m = "round_half_even (\<bar>x\<bar> / ?q)"
  have q: "0 < ?q" by simp
  have ax: "\<bar>x\<bar> = x" using x by simp
  note e = exponent_bounds [OF x]
  have r53: "(of_int r :: rat) < 2 powi 53" 
  proof -
    have "(of_int r :: rat) < of_int (2 ^ 53)" using assms(3) by (simp only: of_int_less_iff)
    then show ?thesis by simp
  qed
  have "(2::rat) powi exponent x < 2 powi 53" using e(1) assms(2) r53 by linarith
  then have e52: "exponent x \<le> 52"
    using power_int_increasing [of 53 "exponent x" "2::rat"] by (cases "53 \<le> exponent x") auto
  have m0: "0 \<le> ?m" using q x by (intro round_half_even_nonneg) simp
  have xe: "x < 2 powi (?e + 1)"
  proof -
    have "(2::rat) powi (exponent x + 1) \<le> 2 powi (?e + 1)"
      using ax by (intro power_int_increasing) simp_all
    with e(2) show ?thesis by linarith
  qed
  have le: "of_int ?m * ?q \<le> of_int r"
  proof (cases "2 powi (?e + 1) \<le> (of_int r :: rat)")
    case True
    have "x / ?q \<le> 2 powi (?e + 1) / ?q"
      using xe q by (intro divide_right_mono) (simp_all only: less_imp_le)
    also have "\<dots> = 2 powi 53" by (simp flip: power_int_diff)
    also have "\<dots> = of_int (2 ^ 53)" by simp
    finally have "?m \<le> 2 ^ 53" using ax by (intro round_half_even_le) simp
    then have "(of_int ?m :: rat) \<le> of_int (2 ^ 53)" by (simp only: of_int_le_iff)
    then have "of_int ?m * ?q \<le> of_int (2 ^ 53) * ?q" using q by (intro mult_right_mono) simp_all
    also have "\<dots> = 2 powi 53 * ?q" by simp
    also have "\<dots> = 2 powi (?e + 1)" using power_int_add [of "2::rat" 53 "?e - 52"] by (simp add: add.commute)
    finally show ?thesis using True by linarith
  next
    case False
    have n: "0 \<le> 52 - ?e" using e52 ax by simp
    have "1 / ?q = 2 powi (52 - ?e)" using power_int_minus_divide [of "2::rat" "?e - 52"] by simp
    also have "\<dots> = of_int (2 ^ nat (52 - ?e))" using n by (simp add: power_int_nonneg_exp)
    finally have iq: "1 / ?q = of_int (2 ^ nat (52 - ?e))" .
    have "x / ?q \<le> of_int r / ?q"
      using assms(2) q by (intro divide_right_mono) (simp_all only: less_imp_le)
    also have "\<dots> = of_int r * (1 / ?q)" by simp
    also have "\<dots> = of_int (r * 2 ^ nat (52 - ?e))" by (simp only: iq of_int_mult)
    finally have "?m \<le> r * 2 ^ nat (52 - ?e)" using ax by (intro round_half_even_le) simp
    then have "(of_int ?m :: rat) \<le> of_int (r * 2 ^ nat (52 - ?e))" by (simp only: of_int_le_iff)
    then have "of_int ?m * ?q \<le> of_int (r * 2 ^ nat (52 - ?e)) * ?q"
      using q by (intro mult_right_mono) simp_all
    also have "\<dots> = of_int r * ((1 / ?q) * ?q)" by (simp only: iq of_int_mult mult.assoc)
    also have "\<dots> = of_int r" using q by simp
    finally show ?thesis .
  qed
  have "of_int ?m * ?q < 2 powi 1024"
  proof -
    have "(2::rat) powi 53 \<le> 2 powi 1024" by (intro power_int_increasing) simp_all
    with le r53 show ?thesis by linarith
  qed
  moreover have "0 \<le> of_int ?m * ?q" using m0 q by simp
  ultimately show ?thesis using x le by (simp add: round_to_double_def Let_def not_le)
qed

text \<open>A number that has the form of a double is not changed.\<close>

lemma round_to_double_exact:
  assumes "x = of_int m * 2 powi p" and "0 < m" and "m < 2 ^ 53" and "- 1074 \<le> p"
    and "x < 2 powi 1024"
  shows "round_to_double x = Num x"
proof -
  have p: "(0::rat) < 2 powi p" by simp
  have x: "0 < x" using assms(1,2) p by simp
  let ?e = "max (exponent \<bar>x\<bar>) (- 1022)"
  let ?q = "(2::rat) powi (?e - 52)"
  have ax: "\<bar>x\<bar> = x" using x by simp
  note e = exponent_bounds [OF x]
  have "(of_int m :: rat) < of_int (2 ^ 53)" using assms(3) by (simp only: of_int_less_iff)
  then have "(of_int m :: rat) < 2 powi 53" by simp
  then have "x < 2 powi 53 * 2 powi p" using assms(1) p by (simp add: mult_strict_right_mono)
  also have "\<dots> = 2 powi (53 + p)" using power_int_add [of "2::rat" 53 p] by (simp add: add.commute)
  finally have "(2::rat) powi exponent x < 2 powi (53 + p)" using e(1) by linarith
  then have "exponent x < 53 + p"
    using power_int_increasing [of "53 + p" "exponent x" "2::rat"]
    by (cases "53 + p \<le> exponent x") auto
  with assms(4) have n: "0 \<le> p - (?e - 52)" using ax by simp
  have "x / ?q = of_int m * (2 powi p / ?q)" using assms(1) by simp
  also have "2 powi p / ?q = 2 powi (p - (?e - 52))" by (simp flip: power_int_diff)
  also have "\<dots> = of_int (2 ^ nat (p - (?e - 52)))" using n by (simp add: power_int_nonneg_exp)
  finally have "x / ?q = of_int (m * 2 ^ nat (p - (?e - 52)))" by (simp only: of_int_mult)
  then have "of_int (round_half_even (\<bar>x\<bar> / ?q)) * ?q = x / ?q * ?q"
    using ax by (simp only: round_half_even_int)
  also have "\<dots> = x" by simp
  finally have "of_int (round_half_even (\<bar>x\<bar> / ?q)) * ?q = x" .
  with x assms(5) show ?thesis by (simp add: round_to_double_def Let_def not_le)
qed

lemma round_to_double_int:
  assumes "0 \<le> n" and "n < 2 ^ 53"
  shows "round_to_double (of_int n) = Num (of_int n)"
proof (cases "n = 0")
  case True
  then show ?thesis by (simp add: round_to_double_def)
next
  case False
  have "(of_int n :: rat) < of_int (2 ^ 53)" using assms(2) by (simp only: of_int_less_iff)
  then have "(of_int n :: rat) < 2 powi 53" by simp
  moreover have "(2::rat) powi 53 \<le> 2 powi 1024" by (intro power_int_increasing) simp_all
  ultimately have "(of_int n :: rat) < 2 powi 1024" by linarith
  with round_to_double_exact [of "of_int n" n 0] assms False show ?thesis by simp
qed

text \<open>The rounding of a number whose binary exponent is known.\<close>

lemma round_to_double_binade:
  assumes "2 powi k \<le> x" and "x < 2 powi (k + 1)" and "- 1022 \<le> k" and "k \<le> 1022"
  shows "round_to_double x
         = Num (of_int (round_half_even (x / 2 powi (k - 52))) * 2 powi (k - 52))"
proof -
  have "(0::rat) < 2 powi k" by simp
  with assms(1) have x: "0 < x" by linarith
  have e: "exponent \<bar>x\<bar> = k" using exponent_unique [OF assms(1,2)] x by simp
  let ?q = "(2::rat) powi (k - 52)"
  have q: "0 < ?q" by simp
  have "x / ?q \<le> 2 powi (k + 1) / ?q"
    using assms(2) q by (intro divide_right_mono) (simp_all only: less_imp_le)
  also have "\<dots> = 2 powi 53" by (simp flip: power_int_diff)
  also have "\<dots> = of_int (2 ^ 53)" by simp
  finally have "round_half_even (x / ?q) \<le> 2 ^ 53" by (intro round_half_even_le) simp
  then have "(of_int (round_half_even (x / ?q)) :: rat) \<le> of_int (2 ^ 53)"
    by (simp only: of_int_le_iff)
  then have "of_int (round_half_even (x / ?q)) * ?q \<le> of_int (2 ^ 53) * ?q"
    using q by (intro mult_right_mono) simp_all
  also have "\<dots> = 2 powi 53 * ?q" by simp
  also have "\<dots> = 2 powi (k + 1)"
    using power_int_add [of "2::rat" 53 "k - 52"] by (simp add: add.commute)
  also have "\<dots> \<le> 2 powi 1023" using assms(4) by (intro power_int_increasing) simp_all
  also have "\<dots> < 2 powi 1024" by (intro power_int_strict_increasing) simp_all
  finally have "of_int (round_half_even (x / ?q)) * ?q < 2 powi 1024" .
  with x e assms(3) show ?thesis
    by (simp add: round_to_double_def Let_def not_le max_def)
qed

lemma round_to_double_numeral [simp]:
  "(numeral n :: int) < 2 ^ 53 \<Longrightarrow> round_to_double (numeral n) = Num (numeral n)"
  using round_to_double_int [of "numeral n"] by simp

lemma round_to_double_three_quarters: "round_to_double (3 / 4) = Num (3 / 4)"
  using round_to_double_exact [of "3 / 4" 3 "- 2"] by simp

text \<open>\<^verbatim>\<open>Math.round(x * 1000) / 10\<close> on a double \<open>x\<close> from 0 to 1, and on one that is not
  negative.\<close>

lemma percent_of_unit:
  assumes "0 \<le> x" and "x \<le> 1"
  shows "\<exists>m k. divide_double (Math_round (times_double (Num x) 1000)) 10 = Num m \<and>
           0 \<le> m \<and> m \<le> 100 \<and> Num m = round_to_double (of_int k / 10)"
proof -
  have "0 \<le> x * 1000" "x * 1000 \<le> of_int 1000" using assms by simp_all
  from round_to_double_le [OF this] obtain p where
    p: "round_to_double (x * 1000) = Num p" "0 \<le> p" "p \<le> 1000" by auto
  let ?k = "\<lfloor>p + 1 / 2\<rfloor>"
  have "0 \<le> p + 1 / 2" using p(2) by simp
  then have k0: "0 \<le> ?k" by simp
  have "p + 1 / 2 < 1001" using p(3) by simp
  then have "?k < 1001" by (simp add: floor_less_iff)
  then have k1: "?k \<le> 1000" by simp
  have "(0::rat) \<le> of_int ?k / 10" "(of_int ?k :: rat) / 10 \<le> of_int 100"
    using k0 k1 by simp_all
  from round_to_double_le [OF this] obtain m where
    m: "round_to_double (of_int ?k / 10) = Num m" "0 \<le> m" "m \<le> 100" by auto
  have "divide_double (Math_round (times_double (Num x) 1000)) 10 = Num m"
    using p(1) m(1) by simp
  with m show ?thesis by (intro exI [of _ m] exI [of _ ?k]) simp
qed

lemma percent_of_nonneg:
  assumes "0 \<le> x"
  shows "divide_double (Math_round (times_double (Num x) 1000)) 10 = PosInfinity \<or>
         (\<exists>y k. divide_double (Math_round (times_double (Num x) 1000)) 10 = Num y \<and> 0 \<le> y \<and>
            Num y = round_to_double (of_int k / 10))"
proof -
  have "0 \<le> x * 1000" using assms by simp
  from round_to_double_nonneg [OF this] show ?thesis
  proof
    assume "round_to_double (x * 1000) = PosInfinity"
    then show ?thesis by simp
  next
    assume "\<exists>p. round_to_double (x * 1000) = Num p \<and> 0 \<le> p"
    then obtain p where p: "round_to_double (x * 1000) = Num p" "0 \<le> p" by blast
    let ?k = "\<lfloor>p + 1 / 2\<rfloor>"
    have "0 \<le> p + 1 / 2" using p(2) by simp
    then have "0 \<le> ?k" by simp
    then have "(0::rat) \<le> of_int ?k / 10" by simp
    from round_to_double_nonneg [OF this] show ?thesis
    proof
      assume "round_to_double (of_int ?k / 10) = PosInfinity"
      with p(1) show ?thesis by simp
    next
      assume "\<exists>y. round_to_double (of_int ?k / 10) = Num y \<and> 0 \<le> y"
      then obtain y where y: "round_to_double (of_int ?k / 10) = Num y" "0 \<le> y" by blast
      have "divide_double (Math_round (times_double (Num x) 1000)) 10 = Num y"
        using p(1) y(1) by simp
      with y show ?thesis by (intro disjI2 exI [of _ y] exI [of _ ?k]) simp
    qed
  qed
qed

section \<open>The specs reporter\<close>

text \<open>
  Claim C8, as stated, asks that both usage values lie between 0 and 100. The CPU
  value is the load average divided by the number of logical CPUs, which no line of
  \<^verbatim>\<open>getServerSpecs\<close> caps: with a load average of 8 on four CPUs the field is
  \<^verbatim>\<open>200%\<close>.
\<close>

theorem cpu_usage_exceeds_100:
  "CPU_usage (getServerSpecs busy_host) = [Shown (Num 200), Text ''%'']"
  by (simp add: getServerSpecs_def cpuUsagePercent_def busy_host_def)

text \<open>
  Claim C8, amended. On a host that reports at least one CPU, a load average that is
  not negative, and free memory within a total that is not zero and below \<open>2^53\<close>
  bytes: the memory usage field is a number from 0 to 100 followed by the percent
  sign; the CPU usage field is a number that is not negative, or \<^verbatim>\<open>Infinity\<close>,
  followed by the percent sign, and it is not capped at 100; each of the two numbers,
  when finite, is the double nearest to a whole number of tenths; and a second reading
  of the same machine yields the same platform and CPU model strings, whatever the
  load and the free memory have become.
\<close>

theorem getServerSpecs_usage:
  assumes "cpus h \<noteq> []" and "0 \<le> loadavg h" and "0 < totalmem h" and "freemem h \<le> totalmem h"
    and "int (totalmem h) < 2 ^ 53"
    and "cpus h' = cpus h" and "os_platform h' = os_platform h" and "os_arch h' = os_arch h"
    and "os_release h' = os_release h"
  shows "\<exists>m c. Memory_usage (getServerSpecs h) = [Shown (Num m), Text ''%''] \<and>
           0 \<le> m \<and> m \<le> 100 \<and> (\<exists>k. Num m = round_to_double (of_int k / 10)) \<and>
           CPU_usage (getServerSpecs h) = [Shown c, Text ''%''] \<and>
           (c = PosInfinity \<or>
            (\<exists>y k. c = Num y \<and> 0 \<le> y \<and> Num y = round_to_double (of_int k / 10))) \<and>
           Platform (getServerSpecs h') = Platform (getServerSpecs h) \<and>
           CPU_model (getServerSpecs h') = CPU_model (getServerSpecs h)"
proof -
  let ?used = "int (totalmem h) - int (freemem h)"
  have used: "0 \<le> ?used" "?used < 2 ^ 53" using assms(4,5) by simp_all
  have "minus_double (of_nat (totalmem h)) (of_nat (freemem h)) = round_to_double (of_int ?used)"
    by (simp add: minus_double_def)
  also have "\<dots> = Num (of_int ?used)" using used by (rule round_to_double_int)
  finally have sub: "minus_double (of_nat (totalmem h)) (of_nat (freemem h)) = Num (of_int ?used)" .
  let ?u = "(of_int ?used :: rat) / of_nat (totalmem h)"
  have "0 \<le> ?u" "?u \<le> of_int 1" using assms(3,4) by simp_all
  from round_to_double_le [OF this] obtain u where
    u: "round_to_double ?u = Num u" "0 \<le> u" "u \<le> 1" by auto
  have mem: "memoryUsagePercent h = divide_double (Math_round (times_double (Num u) 1000)) 10"
    using assms(3) u(1) by (simp add: memoryUsagePercent_def sub)
  from percent_of_unit [OF u(2,3)] mem obtain m k where
    m: "memoryUsagePercent h = Num m" "0 \<le> m" "m \<le> 100"
      "Num m = round_to_double (of_int k / 10)"
    by auto
  let ?l = "loadavg h / of_nat (length (cpus h))"
  have l: "0 \<le> ?l" using assms(2) by simp
  have div: "cpuUsagePercent h
      = divide_double (Math_round (times_double (round_to_double ?l) 1000)) 10"
    using assms(1) by (simp add: cpuUsagePercent_def)
  have cpu: "cpuUsagePercent h = PosInfinity \<or>
      (\<exists>y k. cpuUsagePercent h = Num y \<and> 0 \<le> y \<and> Num y = round_to_double (of_int k / 10))"
    using round_to_double_nonneg [OF l]
  proof
    assume "round_to_double ?l = PosInfinity"
    then show ?thesis by (simp add: div)
  next
    assume "\<exists>y. round_to_double ?l = Num y \<and> 0 \<le> y"
    then obtain y where y: "round_to_double ?l = Num y" "0 \<le> y" by blast
    from percent_of_nonneg [OF y(2)] y(1) show ?thesis by (simp add: div)
  qed
  have same: "Platform (getServerSpecs h') = Platform (getServerSpecs h)"
    "CPU_model (getServerSpecs h') = CPU_model (getServerSpecs h)"
    using assms(6-9) by (simp_all add: getServerSpecs_def)
  have "Memory_usage (getServerSpecs h) = [Shown (Num m), Text ''%'']"
    "CPU_usage (getServerSpecs h) = [Shown (cpuUsagePercent h), Text ''%'']"
    using m(1) by (simp_all add: getServerSpecs_def)
  with m(2,3,4) cpu same show ?thesis
    by (intro exI [of _ m] exI [of _ "cpuUsagePercent h"]) blast
qed

theorem getServerSpecs_usage_witness:
  "Memory_usage (getServerSpecs busy_host) = [Shown (Num 75), Text ''%''] \<and>
   CPU_usage (getServerSpecs busy_host) = [Shown (Num 200), Text ''%''] \<and>
   Platform (getServerSpecs calm_host) = ''linux, x64, 6.1.0'' \<and>
   Platform (getServerSpecs busy_host) = ''linux, x64, 6.1.0'' \<and>
   (\<exists>m c. Memory_usage (getServerSpecs busy_host) = [Shown (Num m), Text ''%''] \<and>
      0 \<le> m \<and> m \<le> 100 \<and> (\<exists>k. Num m = round_to_double (of_int k / 10)) \<and>
      CPU_usage (getServerSpecs busy_host) = [Shown c, Text ''%''] \<and>
      (c = PosInfinity \<or>
       (\<exists>y k. c = Num y \<and> 0 \<le> y \<and> Num y = round_to_double (of_int k / 10))) \<and>
      Platform (getServerSpecs calm_host) = Platform (getServerSpecs busy_host) \<and>
      CPU_model (getServerSpecs calm_host) = CPU_model (getServerSpecs busy_host))"
proof -
  have "cpus busy_host \<noteq> []" "0 \<le> loadavg busy_host" "0 < totalmem busy_host"
    "freemem busy_host \<le> totalmem busy_host" "int (totalmem busy_host) < 2 ^ 53"
    "cpus calm_host = cpus busy_host"
    "os_platform calm_host = os_platform busy_host" "os_arch calm_host = os_arch busy_host"
    "os_release calm_host = os_release busy_host"
    by (simp_all add: busy_host_def calm_host_def)
  from getServerSpecs_usage [OF this] show ?thesis
    by (simp add: getServerSpecs_def memoryUsagePercent_def cpuUsagePercent_def busy_host_def
        calm_host_def minus_double_def round_to_double_three_quarters)
qed

section \<open>What the statements and the loops do\<close>

lemma kept_refl [simp]: "kept rs rs"
  by (auto simp: kept_def same_row_def)

lemma kept_trans: "kept a b \<Longrightarrow> kept b c \<Longrightarrow> kept a c"
  unfolding kept_def same_row_def by (metis (no_types, lifting))

lemma kept_filter: "kept rs (filter p rs)"
  by (auto simp: kept_def same_row_def)

lemma kept_rewrite: "kept rs (map (\<lambda>r. if p r then r\<lparr>content := c\<rparr> else r) rs)"
  by (auto simp: kept_def same_row_def)

lemma steady_refl [simp]: "steady w w"
  by (simp add: steady_def)

lemma steady_trans: "steady w w1 \<Longrightarrow> steady w1 w2 \<Longrightarrow> steady w w2"
  by (simp add: steady_def)

lemma fold_max_ge: "(s::int) \<le> fold max ys s"
proof (induction ys arbitrary: s)
  case Nil
  then show ?case by simp
next
  case (Cons a ys)
  have "s \<le> max a s" by simp
  also have "\<dots> \<le> fold max ys (max a s)" by (rule Cons.IH)
  finally show ?case by simp
qed

lemma fold_max_absorb: "\<forall>y\<in>set ys. y \<le> s \<Longrightarrow> fold max ys s = (s::int)"
  by (induction ys arbitrary: s) (auto simp: max_def)

lemma fold_max_mem: "y \<in> set ys \<Longrightarrow> y \<le> fold max ys (s::int)"
proof (induction ys arbitrary: s)
  case Nil
  then show ?case by simp
next
  case (Cons a ys)
  show ?case
  proof (cases "y = a")
    case True
    have "a \<le> max a s" by simp
    also have "\<dots> \<le> fold max ys (max a s)" by (rule fold_max_ge)
    finally show ?thesis using True by simp
  next
    case False
    with Cons show ?thesis by simp
  qed
qed

lemma ids_from_0 [simp]: "ids_from h 0 = []"
  by (simp add: ids_from_def)

lemma length_ids_from [simp]: "length (ids_from h k) = k"
  by (simp add: ids_from_def)

lemma ids_from_append: "ids_from h k @ ids_from (h + int k) j = ids_from h (k + j)"
proof -
  have "[0..<k + j] = [0..<k] @ [k..<k + j]"
    using upt_add_eq_append [of 0 k j] by simp
  also have "[k..<k + j] = map (\<lambda>i. i + k) [0..<j]"
    using map_add_upt [of k j] by (simp add: add.commute)
  finally have "[0..<k + j] = [0..<k] @ map (\<lambda>i. i + k) [0..<j]" .
  then show ?thesis
    by (simp add: ids_from_def o_def add.commute add.left_commute)
qed

lemma ids_from_Suc: "(h + 1) # ids_from (h + 1) k = ids_from h (Suc k)"
  using ids_from_append [of h 1 k] by (simp add: ids_from_def)

lemma distinct_ids_from: "distinct (ids_from h k)"
  by (simp add: ids_from_def distinct_map inj_on_def)

lemma random_string_frame:
  "clock (snd (random_string P n m w)) = clock w"
  "trace (snd (random_string P n m w)) = trace w"
  "dbfile (snd (random_string P n m w)) = dbfile w"
  "db (snd (random_string P n m w)) = db w"
  "connections (snd (random_string P n m w)) = connections w"
  "pragmas (snd (random_string P n m w)) = pragmas w"
  by (simp_all add: random_string_def Math_random_def Let_def)

lemma Math_random_frame:
  "clock (snd (Math_random P w)) = clock w"
  "trace (snd (Math_random P w)) = trace w"
  "dbfile (snd (Math_random P w)) = dbfile w"
  "db (snd (Math_random P w)) = db w"
  "connections (snd (Math_random P w)) = connections w"
  "pragmas (snd (Math_random P w)) = pragmas w"
  by (simp_all add: Math_random_def)

lemma round_to_double_minus:
  "round_to_double (- x) =
     (case round_to_double x of Num y \<Rightarrow> Num (- y) | PosInfinity \<Rightarrow> NegInfinity
      | NegInfinity \<Rightarrow> PosInfinity | NaN \<Rightarrow> NaN)"
  by (simp add: round_to_double_def Let_def)

lemma double_of_int_exact:
  assumes "\<bar>i\<bar> \<le> 2 ^ 53"
  shows "double_of_int i = i"
proof -
  have pos: "round_to_double (of_int n) = Num (of_int n)" if "0 \<le> n" "n \<le> 2 ^ 53" for n :: int
  proof (cases "n = 2 ^ 53")
    case True
    have "(2::rat) powi 53 < 2 powi 1024" by (intro power_int_strict_increasing) simp_all
    with round_to_double_exact [of "2 powi 53" 1 53] True show ?thesis by simp
  next
    case False
    with that have "n < 2 ^ 53" by simp
    with that(1) show ?thesis by (rule round_to_double_int)
  qed
  show ?thesis
  proof (cases "0 \<le> i")
    case True
    with assms pos [of i] show ?thesis by (simp add: double_of_int_def)
  next
    case False
    with assms pos [of "- i"] have "round_to_double (of_int (- i)) = Num (of_int (- i))" by simp
    then have "round_to_double (of_int i) = Num (of_int i)"
      using round_to_double_minus [of "of_int (- i)"] by simp
    then show ?thesis by (simp add: double_of_int_def)
  qed
qed

text \<open>Between \<open>2^53\<close> and \<open>2^54\<close> the doubles are the even numbers: the odd row id
  \<open>2^53 + 99\<close> lies halfway between two of them and goes to \<open>2^53 + 100\<close>, whose
  significand is even.\<close>

lemma double_of_int_tie:
  "double_of_int 9007199254741091 = 9007199254741092"
  "double_of_int 9007199254741092 = 9007199254741092"
  using round_to_double_binade [of 53 9007199254741091]
    round_to_double_binade [of 53 9007199254741092]
  by (simp_all add: double_of_int_def round_half_even_def)

lemma insertStmt_run_Some:
  assumes "comments (dbfile w) = Some t" and "high t < max_rowid"
  shows "\<exists>w' t'. insertStmt_run a c s ts w = Inr (double_of_int (high t + 1), w') \<and>
           comments (dbfile w') = Some t' \<and> high t' = high t + 1 \<and>
           rows t' = rows t @ [\<lparr>comment_id = high t + 1, author = a, content = c,
                                test_session = s, comment_timestamp = ts\<rparr>] \<and>
           clock w' = clock w \<and> trace w' = trace w @ [InsertComment (high t + 1)] \<and>
           steady w w'"
proof -
  have "fold max (map comment_id (rows t) @ [1 + high t]) (1 + high t) = 1 + high t"
  proof (rule fold_max_absorb, rule ballI)
    fix y assume "y \<in> set (map comment_id (rows t) @ [1 + high t])"
    then consider "y \<in> set (map comment_id (rows t))" | "y = 1 + high t" by auto
    then show "y \<le> 1 + high t"
    proof cases
      case 1
      from fold_max_mem [OF this, of "seq t"] show ?thesis by (simp add: high_def)
    next
      case 2
      then show ?thesis by simp
    qed
  qed
  with assms show ?thesis
    by (simp add: insertStmt_run_def next_comment_id_def Let_def log_stmt_def steady_def
        high_def add.commute)
qed

lemma insertStmt_run_room:
  assumes "insertStmt_run a c s ts w = Inr (i, w')" and "comments (dbfile w) = Some t"
  shows "high t < max_rowid"
  using assms
  by (auto simp: insertStmt_run_def next_comment_id_def high_def Let_def split: if_splits)

lemma insert_rows_returns:
  assumes "comments (dbfile w) = Some t" and "high t + int k \<le> max_rowid"
  shows "\<exists>w' t' new. insert_rows P k sid ts (xs, n, w)
             = Inr (xs @ map double_of_int (ids_from (high t) k), n + k, w') \<and>
           comments (dbfile w') = Some t' \<and> high t' = high t + int k \<and>
           rows t' = rows t @ new \<and> map comment_id new = ids_from (high t) k \<and>
           (\<forall>row\<in>set new. test_session row = sid) \<and>
           clock w' = clock w \<and> trace w' = trace w @ map InsertComment (ids_from (high t) k) \<and>
           steady w w'"
  using assms
proof (induction k arbitrary: xs n w t)
  case 0
  then show ?case by simp
next
  case (Suc k)
  obtain a w1 where a: "random_string P 16 5 w = (a, w1)" by (cases "random_string P 16 5 w")
  obtain c w2 where c: "random_string P 91 10 w1 = (c, w2)" by (cases "random_string P 91 10 w1")
  have w1: "clock w1 = clock w" "trace w1 = trace w" "dbfile w1 = dbfile w" "steady w w1"
    using random_string_frame [of P 16 5 w] a by (simp_all add: steady_def)
  have w2: "clock w2 = clock w1" "trace w2 = trace w1" "dbfile w2 = dbfile w1" "steady w1 w2"
    using random_string_frame [of P 91 10 w1] c by (simp_all add: steady_def)
  have t2: "comments (dbfile w2) = Some t" using Suc.prems(1) w1 w2 by simp
  have room: "high t < max_rowid" using Suc.prems(2) by simp
  let ?row = "\<lparr>comment_id = high t + 1, author = a, content = c, test_session = sid,
                comment_timestamp = ts\<rparr>"
  from insertStmt_run_Some [OF t2 room, of a c sid ts] obtain w3 t3 where
    ins: "insertStmt_run a c sid ts w2 = Inr (double_of_int (high t + 1), w3)" and
    w3: "comments (dbfile w3) = Some t3" "high t3 = high t + 1" "clock w3 = clock w2"
      "trace w3 = trace w2 @ [InsertComment (high t + 1)]" "steady w2 w3" and
    r3: "rows t3 = rows t @ [?row]"
    by blast
  have room3: "high t3 + int k \<le> max_rowid" using Suc.prems(2) w3(2) by simp
  from Suc.IH [OF w3(1) room3, of "xs @ [double_of_int (high t + 1)]" "Suc n"]
  obtain w' t' new where
    rec: "insert_rows P k sid ts (xs @ [double_of_int (high t + 1)], Suc n, w3)
          = Inr ((xs @ [double_of_int (high t + 1)]) @ map double_of_int (ids_from (high t3) k),
                 Suc n + k, w')" and
    w': "comments (dbfile w') = Some t'" "high t' = high t3 + int k" "clock w' = clock w3"
      "trace w' = trace w3 @ map InsertComment (ids_from (high t3) k)" "steady w3 w'" and
    new: "rows t' = rows t3 @ new" "map comment_id new = ids_from (high t3) k"
      "\<forall>row\<in>set new. test_session row = sid"
    by blast
  have ids: "(high t + 1) # ids_from (high t3) k = ids_from (high t) (Suc k)"
    using ids_from_Suc [of "high t" k] w3(2) by simp
  have "insert_rows P (Suc k) sid ts (xs, n, w)
        = Inr (xs @ map double_of_int (ids_from (high t) (Suc k)), n + Suc k, w')"
    using a c ins rec ids [symmetric] by simp
  moreover have "high t' = high t + int (Suc k)" using w'(2) w3(2) by simp
  moreover have "clock w' = clock w" using w'(3) w3(3) w2(1) w1(1) by simp
  moreover have "trace w' = trace w @ map InsertComment (ids_from (high t) (Suc k))"
    using w'(4) w3(4) w2(2) w1(2) ids [symmetric] by simp
  moreover have "steady w w'"
    using w1(4) w2(4) w3(5) w'(5) by (blast intro: steady_trans)
  moreover have "rows t' = rows t @ (?row # new)" using new(1) r3 by simp
  moreover have "map comment_id (?row # new) = ids_from (high t) (Suc k)"
    using new(2) ids by simp
  moreover have "\<forall>row\<in>set (?row # new). test_session row = sid" using new(3) by simp
  ultimately show ?case using w'(1) by blast
qed

lemma insert_rows_room:
  assumes "insert_rows P k sid ts (xs, n, w) = Inr s'" and "comments (dbfile w) = Some t"
    and "0 < k"
  shows "high t + int k \<le> max_rowid"
  using assms
proof (induction k arbitrary: xs n w t)
  case 0
  then show ?case by simp
next
  case (Suc k)
  obtain a w1 where a: "random_string P 16 5 w = (a, w1)" by (cases "random_string P 16 5 w")
  obtain c w2 where c: "random_string P 91 10 w1 = (c, w2)" by (cases "random_string P 91 10 w1")
  have "dbfile w1 = dbfile w" using random_string_frame(3) [of P 16 5 w] a by simp
  moreover have "dbfile w2 = dbfile w1" using random_string_frame(3) [of P 91 10 w1] c by simp
  ultimately have t2: "comments (dbfile w2) = Some t" using Suc.prems(2) by simp
  from Suc.prems(1) a c obtain i w3 where
    ins: "insertStmt_run a c sid ts w2 = Inr (i, w3)" and
    rec: "insert_rows P k sid ts (xs @ [i], Suc n, w3) = Inr s'"
    by (auto split: sum.splits)
  have room: "high t < max_rowid" using ins t2 by (rule insertStmt_run_room)
  from insertStmt_run_Some [OF t2 room, of a c sid ts] ins obtain t3 where
    t3: "comments (dbfile w3) = Some t3" "high t3 = high t + 1"
    by auto
  show ?case
  proof (cases k)
    case 0
    with room show ?thesis by simp
  next
    case (Suc j)
    with Suc.IH [OF rec t3(1)] t3(2) show ?thesis by simp
  qed
qed

lemma insert_rows_result:
  assumes "insert_rows P k sid ts (xs, n, w) = Inr s'" and "comments (dbfile w) = Some t"
    and "0 < k"
  shows "\<exists>w' t' new. s' = (xs @ map double_of_int (ids_from (high t) k), n + k, w') \<and>
           comments (dbfile w') = Some t' \<and> high t' = high t + int k \<and>
           rows t' = rows t @ new \<and> map comment_id new = ids_from (high t) k \<and>
           (\<forall>row\<in>set new. test_session row = sid) \<and>
           clock w' = clock w \<and> trace w' = trace w @ map InsertComment (ids_from (high t) k) \<and>
           steady w w'"
  using insert_rows_returns [OF assms(2) insert_rows_room [OF assms], of P sid ts xs n] assms(1)
  by auto


lemma Date_now_Inr:
  assumes "Date_now w = Inr (now, w1)"
  shows "clock w = now # clock w1" "trace w1 = trace w" "dbfile w1 = dbfile w" "steady w w1"
    "draws w1 = draws w"
  using assms by (auto simp: Date_now_def steady_def split: list.splits)

lemma chunkSize_pos: "0 < chunkSize"
  by (simp add: chunkSize_def)

lemma write_loop_result_aux:
  assumes "write_loop P ws sid ts s = Inr s'" and "comments (dbfile (snd (snd s))) = Some t"
  shows "\<exists>m t' new. fst s' = fst s @ map double_of_int (ids_from (high t) (m * chunkSize)) \<and>
           fst (snd s') = fst (snd s) + m * chunkSize \<and>
           trace (snd (snd s')) = trace (snd (snd s)) @ map InsertComment (ids_from (high t) (m * chunkSize)) \<and>
           steady (snd (snd s)) (snd (snd s')) \<and>
           comments (dbfile (snd (snd s'))) = Some t' \<and>
           high t' = high t + int (m * chunkSize) \<and>
           rows t' = rows t @ new \<and> map comment_id new = ids_from (high t) (m * chunkSize) \<and>
           (\<forall>row\<in>set new. test_session row = sid) \<and>
           (m = 0 \<longrightarrow> dbfile (snd (snd s')) = dbfile (snd (snd s))) \<and>
           (0 < m \<longleftrightarrow> (\<exists>now rest. clock (snd (snd s)) = now # rest \<and>
                        seconds now - ws < of_int maxSecondsPerTest))"
  using assms
proof (induction P ws sid ts s arbitrary: t rule: write_loop.induct)
  case (1 P ws sid ts xs n w)
  from "1.prems"(1) obtain now w1 where d: "Date_now w = Inr (now, w1)"
    by (auto split: sum.splits)
  note f = Date_now_Inr [OF d]
  have t1: "comments (dbfile w1) = Some t" using "1.prems"(2) f(3) by simp
  show ?case
  proof (cases "seconds now - ws < of_int maxSecondsPerTest")
    case False
    with "1.prems"(1) d have "s' = (xs, n, w1)" by simp
    with False f t1 show ?thesis
      by (intro exI [of _ 0] exI [of _ t] exI [of _ "[]"]) simp
  next
    case True
    from "1.prems"(1) d True obtain s where
      ins0: "insert_rows P chunkSize sid ts (xs, n, w1) = Inr s"
      by (auto split: sum.splits)
    from insert_rows_result [OF ins0 t1 chunkSize_pos] obtain w2 t2 new2 where
      s: "s = (xs @ map double_of_int (ids_from (high t) chunkSize), n + chunkSize, w2)" and
      w2: "comments (dbfile w2) = Some t2" "high t2 = high t + int chunkSize"
        "clock w2 = clock w1"
        "trace w2 = trace w1 @ map InsertComment (ids_from (high t) chunkSize)" "steady w1 w2" and
      new2: "rows t2 = rows t @ new2" "map comment_id new2 = ids_from (high t) chunkSize"
        "\<forall>row\<in>set new2. test_session row = sid"
      by blast
    have ins: "insert_rows P chunkSize sid ts (xs, n, w1)
            = Inr (xs @ map double_of_int (ids_from (high t) chunkSize), n + chunkSize, w2)"
      using ins0 s by simp
    from "1.prems"(1) d True ins have
      rec: "write_loop P ws sid ts
              (xs @ map double_of_int (ids_from (high t) chunkSize), n + chunkSize, w2) = Inr s'"
      by simp
    from "1.IH" [OF d refl True ins rec, of t2] w2(1) obtain m t' new where
      m: "fst s' = (xs @ map double_of_int (ids_from (high t) chunkSize)) @
                     map double_of_int (ids_from (high t2) (m * chunkSize))"
        "fst (snd s') = n + chunkSize + m * chunkSize"
        "trace (snd (snd s')) = trace w2 @ map InsertComment (ids_from (high t2) (m * chunkSize))"
        "steady w2 (snd (snd s'))" "comments (dbfile (snd (snd s'))) = Some t'"
        "high t' = high t2 + int (m * chunkSize)" and
      new: "rows t' = rows t2 @ new" "map comment_id new = ids_from (high t2) (m * chunkSize)"
        "\<forall>row\<in>set new. test_session row = sid"
      by auto
    have ids: "ids_from (high t) chunkSize @ ids_from (high t2) (m * chunkSize)
               = ids_from (high t) (Suc m * chunkSize)"
      using ids_from_append [of "high t" chunkSize "m * chunkSize"] w2(2) by simp
    have "fst s' = xs @ map double_of_int (ids_from (high t) (Suc m * chunkSize))"
      using m(1) ids [symmetric] by simp
    moreover have "fst (snd s') = n + Suc m * chunkSize" using m(2) by simp
    moreover have "trace (snd (snd s'))
        = trace w @ map InsertComment (ids_from (high t) (Suc m * chunkSize))"
      using m(3) w2(4) f(2) ids [symmetric] by simp
    moreover have "steady w (snd (snd s'))"
      using f(4) w2(5) m(4) by (blast intro: steady_trans)
    moreover have "high t' = high t + int (Suc m * chunkSize)"
      using m(6) w2(2) by simp
    moreover have "\<exists>now rest. clock w = now # rest \<and> seconds now - ws < of_int maxSecondsPerTest"
      using f(1) True by blast
    moreover have "rows t' = rows t @ (new2 @ new)" using new(1) new2(1) by simp
    moreover have "map comment_id (new2 @ new) = ids_from (high t) (Suc m * chunkSize)"
      using new(2) new2(2) ids by simp
    moreover have "\<forall>row\<in>set (new2 @ new). test_session row = sid"
      using new(3) new2(3) by auto
    ultimately show ?thesis using m(5)
      by (intro exI [of _ "Suc m"] exI [of _ t'] exI [of _ "new2 @ new"]) simp
  qed
qed

lemma write_loop_result:
  assumes "write_loop P ws sid ts (xs, n, w) = Inr (xs', n', w')" and "comments (dbfile w) = Some t"
  shows "\<exists>m t' new. xs' = xs @ map double_of_int (ids_from (high t) (m * chunkSize)) \<and>
           n' = n + m * chunkSize \<and>
           trace w' = trace w @ map InsertComment (ids_from (high t) (m * chunkSize)) \<and>
           steady w w' \<and> comments (dbfile w') = Some t' \<and>
           high t' = high t + int (m * chunkSize) \<and>
           rows t' = rows t @ new \<and> map comment_id new = ids_from (high t) (m * chunkSize) \<and>
           (\<forall>row\<in>set new. test_session row = sid) \<and>
           (m = 0 \<longrightarrow> dbfile w' = dbfile w) \<and>
           (0 < m \<longleftrightarrow> (\<exists>now rest. clock w = now # rest \<and>
                        seconds now - ws < of_int maxSecondsPerTest))"
  using write_loop_result_aux [OF assms(1), of t] assms(2) by simp

lemma write_loop_stop:
  assumes "clock w = now # rest" and "\<not> seconds now - ws < of_int maxSecondsPerTest"
  shows "write_loop P ws sid ts (xs, n, w) = Inr (xs, n, w\<lparr>clock := rest\<rparr>)"
  using assms by (simp add: Date_now_def)

lemma write_loop_go:
  assumes "clock w = now # rest" and "seconds now - ws < of_int maxSecondsPerTest"
    and "insert_rows P chunkSize sid ts (xs, n, w\<lparr>clock := rest\<rparr>) = Inr s"
  shows "write_loop P ws sid ts (xs, n, w) = write_loop P ws sid ts s"
  using assms by (simp add: Date_now_def)


lemma picks_in_range:
  assumes "nr \<noteq> []" and "\<And>k. 0 \<le> random_values P k \<and> random_values P k < 1"
  shows "picks P nr \<subseteq> Some ` set nr"
proof
  fix x assume "x \<in> picks P nr"
  then obtain k where x: "x = js_index nr \<lfloor>random_values P k * of_nat (length nr)\<rfloor>"
    by (auto simp: picks_def)
  let ?r = "random_values P k" and ?n = "of_nat (length nr) :: rat"
  have n: "0 < ?n" using assms(1) by simp
  have "0 \<le> ?r * ?n" using assms(2) [of k] n by simp
  then have lo: "0 \<le> \<lfloor>?r * ?n\<rfloor>" by simp
  have "?r * ?n < 1 * ?n" using assms(2) [of k] n by (intro mult_strict_right_mono) simp_all
  then have "?r * ?n < of_int (int (length nr))" by simp
  then have hi: "\<lfloor>?r * ?n\<rfloor> < int (length nr)" by (simp only: floor_less_iff)
  have "nat \<lfloor>?r * ?n\<rfloor> < length nr"
    by (rule iffD2 [OF nat_less_iff [OF lo] hi])
  with lo hi x show "x \<in> Some ` set nr" by (simp add: js_index_def)
qed

lemma selectStmt_get_Inr:
  assumes "selectStmt_get i w = Inr (row, w')"
  shows "trace w' = trace w @ [SelectComment i]" "dbfile w' = dbfile w" "steady w w'"
    "clock w' = clock w"
  using assms by (auto simp: selectStmt_get_def log_stmt_def steady_def split: option.splits)

lemma updateStmt_run_Inr:
  assumes "updateStmt_run c i w = Inr w'"
  shows "trace w' = trace w @ [UpdateComment i]" "steady w w'" "clock w' = clock w"
    "kept (comment_rows (dbfile w)) (comment_rows (dbfile w'))"
    "i = None \<Longrightarrow> dbfile w' = dbfile w"
proof -
  from assms obtain t where t: "comments (dbfile w) = Some t"
    by (auto simp: updateStmt_run_def split: option.splits)
  with assms show "trace w' = trace w @ [UpdateComment i]" "steady w w'" "clock w' = clock w"
    by (auto simp: updateStmt_run_def log_stmt_def steady_def)
  from assms t show "kept (comment_rows (dbfile w)) (comment_rows (dbfile w'))"
    by (auto simp: updateStmt_run_def log_stmt_def comment_rows_def kept_rewrite)
  assume "i = None"
  with assms t have "dbfile w' = (dbfile w)\<lparr>comments := Some t\<rparr>"
    by (auto simp: updateStmt_run_def log_stmt_def)
  with t show "dbfile w' = dbfile w" by (cases "dbfile w") simp
qed

lemma deleteStmt_run_Inr:
  assumes "deleteStmt_run i w = Inr w'"
  shows "trace w' = trace w @ [DeleteComment i]" "steady w w'" "clock w' = clock w"
    "kept (comment_rows (dbfile w)) (comment_rows (dbfile w'))"
  using assms
  by (auto simp: deleteStmt_run_def log_stmt_def steady_def comment_rows_def kept_filter
      split: option.splits)

lemma read_loop_result_aux:
  assumes "read_loop P rs nr s = Inr s'"
  shows "\<exists>ids. fst s' = fst s + length ids \<and>
           trace (snd (snd s')) = trace (snd (snd s)) @ map SelectComment ids \<and>
           dbfile (snd (snd s')) = dbfile (snd (snd s)) \<and>
           steady (snd (snd s)) (snd (snd s')) \<and> set ids \<subseteq> picks P nr \<and>
           \<not> fst (snd s') < of_int maxSecondsPerTest \<and>
           (fst (snd s) < of_int maxSecondsPerTest \<longleftrightarrow> ids \<noteq> [])"
  using assms
proof (induction P rs nr s rule: read_loop.induct)
  case (1 P rs nr n d w)
  show ?case
  proof (cases "d < of_int maxSecondsPerTest")
    case False
    with "1.prems" have "s' = (n, d, w)" by simp
    with False show ?thesis by (intro exI [of _ "[]"]) simp
  next
    case True
    let ?i = "js_index nr \<lfloor>fst (Math_random P w) * of_nat (length nr)\<rfloor>"
    let ?w1 = "snd (Math_random P w)"
    from "1.prems" True obtain row w2 where sel: "selectStmt_get ?i ?w1 = Inr (row, w2)"
      by (auto split: sum.splits)
    from "1.prems" True sel obtain now w3 where d: "Date_now w2 = Inr (now, w3)"
      by (auto split: sum.splits)
    from "1.prems" True sel d have
      rec: "read_loop P rs nr (Suc n, seconds now - rs, w3) = Inr s'" by simp
    note s = selectStmt_get_Inr [OF sel] and f = Date_now_Inr [OF d]
      and r = Math_random_frame [of P w]
    from "1.IH" [OF True sel refl d refl rec] obtain ids where
      ids: "fst s' = Suc n + length ids"
        "trace (snd (snd s')) = trace w3 @ map SelectComment ids"
        "dbfile (snd (snd s')) = dbfile w3" "steady w3 (snd (snd s'))"
        "set ids \<subseteq> picks P nr" "\<not> fst (snd s') < of_int maxSecondsPerTest"
      by auto
    have "?i \<in> picks P nr" by (auto simp: picks_def Math_random_def)
    moreover have "steady w ?w1" using r by (simp add: steady_def)
    then have "steady w (snd (snd s'))"
      using s(3) f(4) ids(4) by (blast intro: steady_trans)
    moreover have "trace (snd (snd s')) = trace w @ map SelectComment (?i # ids)"
      using ids(2) f(2) s(1) r(2) by simp
    moreover have "dbfile (snd (snd s')) = dbfile w"
      using ids(3) f(3) s(2) r(3) by simp
    ultimately show ?thesis using ids(1,5,6) True
      by (intro exI [of _ "?i # ids"]) simp
  qed
qed

lemma update_loop_result_aux:
  assumes "update_loop P us nr s = Inr s'"
  shows "\<exists>ids. fst s' = fst s + length ids \<and>
           trace (snd (snd s')) = trace (snd (snd s)) @ map UpdateComment ids \<and>
           (nr = [] \<longrightarrow> dbfile (snd (snd s')) = dbfile (snd (snd s))) \<and>
           kept (comment_rows (dbfile (snd (snd s)))) (comment_rows (dbfile (snd (snd s')))) \<and>
           steady (snd (snd s)) (snd (snd s')) \<and> set ids \<subseteq> picks P nr \<and>
           \<not> fst (snd s') < of_int maxSecondsPerTest \<and>
           (fst (snd s) < of_int maxSecondsPerTest \<longleftrightarrow> ids \<noteq> [])"
  using assms
proof (induction P us nr s rule: update_loop.induct)
  case (1 P us nr n d w)
  show ?case
  proof (cases "d < of_int maxSecondsPerTest")
    case False
    with "1.prems" have "s' = (n, d, w)" by simp
    with False show ?thesis by (intro exI [of _ "[]"]) simp
  next
    case True
    let ?i = "js_index nr \<lfloor>fst (Math_random P w) * of_nat (length nr)\<rfloor>"
    let ?w0 = "snd (Math_random P w)"
    let ?c = "fst (random_string P 91 10 ?w0)"
    let ?w1 = "snd (random_string P 91 10 ?w0)"
    from "1.prems" True obtain w2 where upd: "updateStmt_run ?c ?i ?w1 = Inr w2"
      by (auto split: sum.splits)
    from "1.prems" True upd obtain now w3 where d: "Date_now w2 = Inr (now, w3)"
      by (auto split: sum.splits)
    from "1.prems" True upd d have
      rec: "update_loop P us nr (Suc n, seconds now - us, w3) = Inr s'" by simp
    note u = updateStmt_run_Inr [OF upd] and f = Date_now_Inr [OF d]
      and r = Math_random_frame [of P w] and q = random_string_frame [of P 91 10 ?w0]
    from "1.IH" [OF True upd d refl rec] obtain ids where
      ids: "fst s' = Suc n + length ids"
        "trace (snd (snd s')) = trace w3 @ map UpdateComment ids"
        "nr = [] \<longrightarrow> dbfile (snd (snd s')) = dbfile w3" "steady w3 (snd (snd s'))"
        "set ids \<subseteq> picks P nr" "\<not> fst (snd s') < of_int maxSecondsPerTest"
        "kept (comment_rows (dbfile w3)) (comment_rows (dbfile (snd (snd s'))))"
      by auto
    have "kept (comment_rows (dbfile w)) (comment_rows (dbfile w2))"
      using u(4) r(3) q(3) by simp
    then have k: "kept (comment_rows (dbfile w)) (comment_rows (dbfile (snd (snd s'))))"
      using ids(7) f(3) by (auto intro: kept_trans)
    have "?i \<in> picks P nr" by (auto simp: picks_def Math_random_def)
    moreover have "steady w ?w1" using r q by (simp add: steady_def)
    then have "steady w (snd (snd s'))"
      using u(2) f(4) ids(4) by (blast intro: steady_trans)
    moreover have "trace (snd (snd s')) = trace w @ map UpdateComment (?i # ids)"
      using ids(2) f(2) u(1) r(2) q(2) by simp
    moreover have "nr = [] \<longrightarrow> dbfile (snd (snd s')) = dbfile w"
    proof
      assume e: "nr = []"
      then have "?i = None" by (simp add: js_index_def)
      from u(5) [OF this] ids(3) e f(3) r(3) q(3) show "dbfile (snd (snd s')) = dbfile w"
        by simp
    qed
    ultimately show ?thesis using ids(1,5,6) True k
      by (intro exI [of _ "?i # ids"]) simp
  qed
qed

lemma delete_loop_result_aux:
  assumes "delete_loop ds s = Inr s'"
  shows "\<exists>popped. fst s = fst s' @ rev popped \<and>
           fst (snd s') = fst (snd s) + length popped \<and>
           trace (snd (snd (snd s')))
             = trace (snd (snd (snd s))) @ map (\<lambda>i. DeleteComment (Some i)) popped \<and>
           steady (snd (snd (snd s))) (snd (snd (snd s'))) \<and>
           kept (comment_rows (dbfile (snd (snd (snd s)))))
             (comment_rows (dbfile (snd (snd (snd s'))))) \<and>
           (\<not> fst (snd (snd s')) < of_int maxSecondsPerTest \<or> fst s' = []) \<and>
           (fst s = [] \<longrightarrow> s' = s)"
  using assms
proof (induction ds s rule: delete_loop.induct)
  case (1 ds nr n d w)
  show ?case
  proof (cases "d < of_int maxSecondsPerTest \<and> length nr > 0")
    case False
    with "1.prems" have "s' = (nr, n, d, w)" by (simp split: if_splits)
    with False show ?thesis by (intro exI [of _ "[]"]) auto
  next
    case True
    from "1.prems" True obtain w1 where del: "deleteStmt_run (Some (last nr)) w = Inr w1"
      by (auto split: sum.splits)
    from "1.prems" True del obtain now w2 where d: "Date_now w1 = Inr (now, w2)"
      by (auto split: sum.splits)
    from "1.prems" True del d have
      rec: "delete_loop ds (butlast nr, Suc n, seconds now - ds, w2) = Inr s'" by simp
    note e = deleteStmt_run_Inr [OF del] and f = Date_now_Inr [OF d]
    from "1.IH" [OF True del d refl rec] obtain popped where
      p: "butlast nr = fst s' @ rev popped" "fst (snd s') = Suc n + length popped"
        "trace (snd (snd (snd s'))) = trace w2 @ map (\<lambda>i. DeleteComment (Some i)) popped"
        "steady w2 (snd (snd (snd s')))"
        "\<not> fst (snd (snd s')) < of_int maxSecondsPerTest \<or> fst s' = []"
        "kept (comment_rows (dbfile w2)) (comment_rows (dbfile (snd (snd (snd s')))))"
      by auto
    have k: "kept (comment_rows (dbfile w)) (comment_rows (dbfile (snd (snd (snd s')))))"
      using e(4) p(6) f(3) by (auto intro: kept_trans)
    have "nr = butlast nr @ [last nr]" using True by simp
    then have "nr = fst s' @ rev (last nr # popped)" using p(1) by simp
    moreover have "steady w (snd (snd (snd s')))"
      using e(2) f(4) p(4) by (blast intro: steady_trans)
    moreover have "trace (snd (snd (snd s')))
        = trace w @ map (\<lambda>i. DeleteComment (Some i)) (last nr # popped)"
      using p(3) f(2) e(1) by simp
    ultimately show ?thesis using p(2,5) True k
      by (intro exI [of _ "last nr # popped"]) simp
  qed
qed



lemma write_phase_result:
  assumes "write_phase P sid ts w = Inr (ws, xs, n, rate, w')" and "comments (dbfile w) = Some t"
  shows "\<exists>m t' t0 t1 rest new.
           xs = map double_of_int (ids_from (high t) (m * chunkSize)) \<and> n = m * chunkSize \<and>
           trace w' = trace w @ map InsertComment (ids_from (high t) (m * chunkSize)) \<and>
           steady w w' \<and>
           comments (dbfile w') = Some t' \<and> clock w = t0 # rest \<and> ws = seconds t0 \<and>
           rate = Math_round (divide_js (of_nat n) (seconds t1 - ws)) \<and>
           rows t' = rows t @ new \<and> map comment_id new = ids_from (high t) (m * chunkSize) \<and>
           (\<forall>row\<in>set new. test_session row = sid) \<and>
           (m = 0 \<longrightarrow> dbfile w' = dbfile w) \<and>
           (0 < m \<longleftrightarrow> (\<exists>now rest'. rest = now # rest' \<and>
                         seconds now - ws < of_int maxSecondsPerTest))"
proof -
  from assms(1) obtain t0 w1 w2 t1 where
    d0: "Date_now w = Inr (t0, w1)" and
    l: "write_loop P (seconds t0) sid ts ([], 0, w1) = Inr (xs, n, w2)" and
    d1: "Date_now w2 = Inr (t1, w')" and
    r: "ws = seconds t0" "rate = Math_round (divide_js (of_nat n) (seconds t1 - seconds t0))"
    by (auto simp: write_phase_def then_do_Inr)
  note f0 = Date_now_Inr [OF d0] and f1 = Date_now_Inr [OF d1]
  have "comments (dbfile w1) = Some t" using assms(2) f0(3) by simp
  from write_loop_result [OF l this] obtain m t' new where
    m: "xs = map double_of_int (ids_from (high t) (m * chunkSize))" "n = m * chunkSize"
      "trace w2 = trace w1 @ map InsertComment (ids_from (high t) (m * chunkSize))"
      "steady w1 w2" "comments (dbfile w2) = Some t'"
      "0 < m \<longleftrightarrow> (\<exists>now rest. clock w1 = now # rest \<and>
                        seconds now - seconds t0 < of_int maxSecondsPerTest)"
      "m = 0 \<longrightarrow> dbfile w2 = dbfile w1" and
    new: "rows t' = rows t @ new" "map comment_id new = ids_from (high t) (m * chunkSize)"
      "\<forall>row\<in>set new. test_session row = sid"
    by (elim exE conjE) (rule that, simp_all)
  have "steady w w'" using f0(4) m(4) f1(4) by (blast intro: steady_trans)
  moreover have "trace w' = trace w @ map InsertComment (ids_from (high t) (m * chunkSize))"
    using m(3) f0(2) f1(2) by simp
  moreover have "comments (dbfile w') = Some t'" using m(5) f1(3) by simp
  moreover have "m = 0 \<longrightarrow> dbfile w' = dbfile w" using m(7) f0(3) f1(3) by simp
  ultimately show ?thesis using m(1,2,6) r f0(1) new
    by (intro exI [of _ m] exI [of _ t'] exI [of _ t0] exI [of _ t1] exI [of _ "clock w1"]
        exI [of _ new]) simp
qed

lemma read_phase_result:
  assumes "read_phase P nr w = Inr (rd, rate, w')"
  shows "\<exists>ids dur. rd = length ids \<and> trace w' = trace w @ map SelectComment ids \<and>
           dbfile w' = dbfile w \<and> steady w w' \<and> set ids \<subseteq> picks P nr \<and> ids \<noteq> [] \<and>
           rate = Math_round (divide_js (of_nat rd) dur) \<and> \<not> dur < of_int maxSecondsPerTest"
proof -
  from assms obtain t0 w1 dur where
    d0: "Date_now w = Inr (t0, w1)" and
    l: "read_loop P (seconds t0) nr (0, 0, w1) = Inr (rd, dur, w')" and
    r: "rate = Math_round (divide_js (of_nat rd) dur)"
    by (auto simp: read_phase_def then_do_Inr)
  note f0 = Date_now_Inr [OF d0]
  from read_loop_result_aux [OF l] obtain ids where
    ids: "rd = length ids" "trace w' = trace w1 @ map SelectComment ids" "dbfile w' = dbfile w1"
      "steady w1 w'" "set ids \<subseteq> picks P nr" "\<not> dur < of_int maxSecondsPerTest" "ids \<noteq> []"
    by (auto simp: maxSecondsPerTest_def)
  have "steady w w'" using f0(4) ids(4) by (blast intro: steady_trans)
  with ids r f0 show ?thesis
    by (intro exI [of _ ids] exI [of _ dur]) simp
qed

lemma update_phase_result:
  assumes "update_phase P nr w = Inr (up, rate, w')"
  shows "\<exists>ids dur. up = length ids \<and> trace w' = trace w @ map UpdateComment ids \<and>
           (nr = [] \<longrightarrow> dbfile w' = dbfile w) \<and> steady w w' \<and> set ids \<subseteq> picks P nr \<and>
           ids \<noteq> [] \<and> kept (comment_rows (dbfile w)) (comment_rows (dbfile w')) \<and>
           rate = Math_round (divide_js (of_nat up) dur) \<and> \<not> dur < of_int maxSecondsPerTest"
proof -
  from assms obtain t0 w1 dur where
    d0: "Date_now w = Inr (t0, w1)" and
    l: "update_loop P (seconds t0) nr (0, 0, w1) = Inr (up, dur, w')" and
    r: "rate = Math_round (divide_js (of_nat up) dur)"
    by (auto simp: update_phase_def then_do_Inr)
  note f0 = Date_now_Inr [OF d0]
  from update_loop_result_aux [OF l] obtain ids where
    ids: "up = length ids" "trace w' = trace w1 @ map UpdateComment ids"
      "nr = [] \<longrightarrow> dbfile w' = dbfile w1"
      "steady w1 w'" "set ids \<subseteq> picks P nr" "\<not> dur < of_int maxSecondsPerTest" "ids \<noteq> []"
      "kept (comment_rows (dbfile w1)) (comment_rows (dbfile w'))"
    by (auto simp: maxSecondsPerTest_def)
  have "steady w w'" using f0(4) ids(4) by (blast intro: steady_trans)
  with ids r f0 show ?thesis
    by (intro exI [of _ ids] exI [of _ dur]) simp
qed

lemma delete_phase_result:
  assumes "delete_phase nr w = Inr (rest, de, dd, rate, w')"
  shows "\<exists>popped. nr = rest @ rev popped \<and> de = length popped \<and>
           trace w' = trace w @ map (\<lambda>i. DeleteComment (Some i)) popped \<and> steady w w' \<and>
           (\<not> dd < of_int maxSecondsPerTest \<or> rest = []) \<and>
           rate = Math_round (divide_js (of_nat de) dd) \<and>
           kept (comment_rows (dbfile w)) (comment_rows (dbfile w')) \<and>
           (nr = [] \<longrightarrow> dd = 0 \<and> dbfile w' = dbfile w)"
proof -
  from assms obtain t0 w1 where
    d0: "Date_now w = Inr (t0, w1)" and
    l: "delete_loop (seconds t0) (nr, 0, 0, w1) = Inr (rest, de, dd, w')" and
    r: "rate = Math_round (divide_js (of_nat de) dd)"
    by (auto simp: delete_phase_def then_do_Inr)
  note f0 = Date_now_Inr [OF d0]
  from delete_loop_result_aux [OF l] obtain popped where
    p: "nr = rest @ rev popped" "de = length popped"
      "trace w' = trace w1 @ map (\<lambda>i. DeleteComment (Some i)) popped"
      "steady w1 w'" "\<not> dd < of_int maxSecondsPerTest \<or> rest = []"
      "nr = [] \<longrightarrow> (rest, de, dd, w') = (nr, 0, 0, w1)"
      "kept (comment_rows (dbfile w1)) (comment_rows (dbfile w'))"
    by auto
  have "steady w w'" using f0(4) p(4) by (blast intro: steady_trans)
  with p r f0 show ?thesis
    by (intro exI [of _ popped]) auto
qed

lemma delete_session_Inr:
  assumes "delete_session s w = Inr w'"
  shows "trace w' = trace w @ [DeleteSession s]" "steady w w'" "clock w' = clock w"
    "filter (\<lambda>row. test_session row = s) (comment_rows (dbfile w')) = []"
  using assms
  by (auto simp: delete_session_def log_stmt_def steady_def comment_rows_def filter_empty_conv
      split: option.splits)

lemma runTest_parts:
  assumes "runTest P w = Inr (r, w')"
  obtains t_session t_stamp w2 ws xs wrate w4 rrate w5 urate w6 rest dd drate w7 w8 t_end where
    "clock w = t_session # t_stamp # clock w2" and "dbfile w2 = dbfile w" and "trace w2 = trace w"
    and "steady w w2" and "comments (dbfile w2) \<noteq> None"
    and "write_phase P (''test_'' @ show_int t_session) \<lfloor>seconds t_stamp\<rfloor> w2
          = Inr (ws, xs, writes r, wrate, w4)"
    and "read_phase P xs w4 = Inr (reads r, rrate, w5)"
    and "update_phase P xs w5 = Inr (updates r, urate, w6)"
    and "delete_phase xs w6 = Inr (rest, deletes r, dd, drate, w7)"
    and "delete_session (''test_'' @ show_int t_session) w7 = Inr w8"
    and "Date_now w8 = Inr (t_end, w')"
    and "writesPerSecond r = wrate" and "readsPerSecond r = rrate"
    and "updatesPerSecond r = urate" and "deletesPerSecond r = drate"
proof -
  from assms obtain t_session w1 t_stamp w2 w3 ws xs n wrate w4 rd rrate w5 up urate w6
      rest de dd drate w7 w8 t_end where
    d1: "Date_now w = Inr (t_session, w1)" and d2: "Date_now w1 = Inr (t_stamp, w2)" and
    pr: "prepare_comments w2 = Inr w3" and
    ph: "write_phase P (''test_'' @ show_int t_session) \<lfloor>seconds t_stamp\<rfloor> w3
          = Inr (ws, xs, n, wrate, w4)"
      "read_phase P xs w4 = Inr (rd, rrate, w5)"
      "update_phase P xs w5 = Inr (up, urate, w6)"
      "delete_phase xs w6 = Inr (rest, de, dd, drate, w7)"
      "delete_session (''test_'' @ show_int t_session) w7 = Inr w8"
      "Date_now w8 = Inr (t_end, w')" and
    r: "writes r = n" "reads r = rd" "updates r = up" "deletes r = de"
      "writesPerSecond r = wrate" "readsPerSecond r = rrate"
      "updatesPerSecond r = urate" "deletesPerSecond r = drate"
    by (auto simp: runTest_def then_do_Inr)
  note f1 = Date_now_Inr [OF d1] and f2 = Date_now_Inr [OF d2]
  from pr have w3: "w3 = w2" "comments (dbfile w2) \<noteq> None"
    by (auto simp: prepare_comments_def split: option.splits)
  have "steady w w2" using f1(4) f2(4) by (blast intro: steady_trans)
  with that [of t_session t_stamp w2 ws xs wrate w4 rrate w5 urate w6 rest dd drate w7 w8 t_end]
    f1 f2 w3 ph r show ?thesis by simp
qed

lemma write_loop_once:
  assumes "clock w = now # later # rest" and "seconds now - ws < of_int maxSecondsPerTest"
    and "\<not> seconds later - ws < of_int maxSecondsPerTest" and "comments (dbfile w) = Some t"
    and "high t + int chunkSize \<le> max_rowid"
  shows "\<exists>w'. write_loop P ws sid ts (xs, n, w)
             = Inr (xs @ map double_of_int (ids_from (high t) chunkSize), n + chunkSize, w') \<and>
           clock w' = rest \<and> comments (dbfile w') \<noteq> None"
proof -
  let ?w1 = "w\<lparr>clock := later # rest\<rparr>"
  have "comments (dbfile ?w1) = Some t" using assms(4) by simp
  from insert_rows_returns [OF this assms(5), of P sid ts xs n] obtain w2 t2 where
    ins: "insert_rows P chunkSize sid ts (xs, n, ?w1)
          = Inr (xs @ map double_of_int (ids_from (high t) chunkSize), n + chunkSize, w2)" and
    w2: "comments (dbfile w2) = Some t2" "clock w2 = later # rest"
    by auto
  have "write_loop P ws sid ts (xs, n, w)
        = write_loop P ws sid ts
            (xs @ map double_of_int (ids_from (high t) chunkSize), n + chunkSize, w2)"
    using assms(1,2) ins by (simp add: Date_now_def)
  also have "\<dots> = Inr (xs @ map double_of_int (ids_from (high t) chunkSize), n + chunkSize,
                       w2\<lparr>clock := rest\<rparr>)"
    using w2(2) assms(3) by (rule write_loop_stop)
  finally show ?thesis using w2(1) by (intro exI [of _ "w2\<lparr>clock := rest\<rparr>"]) simp
qed

lemma write_phase_once:
  assumes "clock w = t0 # now # later # t1 # rest"
    and "seconds now - seconds t0 < of_int maxSecondsPerTest"
    and "\<not> seconds later - seconds t0 < of_int maxSecondsPerTest"
    and "comments (dbfile w) = Some t" and "high t + int chunkSize \<le> max_rowid"
  shows "\<exists>w'. write_phase P sid ts w
             = Inr (seconds t0, map double_of_int (ids_from (high t) chunkSize), chunkSize,
                    Math_round (divide_js (of_nat chunkSize) (seconds t1 - seconds t0)), w') \<and>
           clock w' = rest \<and> comments (dbfile w') \<noteq> None"
proof -
  let ?w1 = "w\<lparr>clock := now # later # t1 # rest\<rparr>"
  have "clock ?w1 = now # later # t1 # rest" "comments (dbfile ?w1) = Some t"
    using assms(4) by simp_all
  from write_loop_once [OF this(1) assms(2,3) this(2) assms(5), of P sid ts "[]" 0] obtain w2 where
    l: "write_loop P (seconds t0) sid ts ([], 0, ?w1)
        = Inr (map double_of_int (ids_from (high t) chunkSize), chunkSize, w2)" and
    w2: "clock w2 = t1 # rest" "comments (dbfile w2) \<noteq> None"
    by auto
  show ?thesis
    using assms(1) l w2
    by (intro exI [of _ "w2\<lparr>clock := rest\<rparr>"])
       (simp add: write_phase_def then_do_def Date_now_def)
qed

lemma read_phase_once:
  assumes "clock w = t0 # now # rest"
    and "\<not> seconds now - seconds t0 < of_int maxSecondsPerTest"
    and "comments (dbfile w) \<noteq> None"
  shows "\<exists>rate w'. read_phase P nr w = Inr (1, rate, w') \<and> clock w' = rest \<and>
           comments (dbfile w') \<noteq> None"
  using assms
  by (auto simp: read_phase_def then_do_def Date_now_def selectStmt_get_def log_stmt_def
      Math_random_def maxSecondsPerTest_def)

lemma update_phase_once:
  assumes "clock w = t0 # now # rest"
    and "\<not> seconds now - seconds t0 < of_int maxSecondsPerTest"
    and "comments (dbfile w) \<noteq> None"
  shows "\<exists>rate w'. update_phase P nr w = Inr (1, rate, w') \<and> clock w' = rest \<and>
           comments (dbfile w') \<noteq> None"
  using assms
  by (auto simp: update_phase_def then_do_def Date_now_def updateStmt_run_def log_stmt_def
      Math_random_def random_string_def Let_def maxSecondsPerTest_def)

lemma delete_phase_once:
  assumes "clock w = t0 # now # rest"
    and "\<not> seconds now - seconds t0 < of_int maxSecondsPerTest"
    and "comments (dbfile w) \<noteq> None" and "nr \<noteq> []"
  shows "\<exists>rate w'. delete_phase nr w = Inr (butlast nr, 1, seconds now - seconds t0, rate, w') \<and>
           clock w' = rest \<and> comments (dbfile w') \<noteq> None"
  using assms
  by (auto simp: delete_phase_def then_do_def Date_now_def deleteStmt_run_def log_stmt_def
      maxSecondsPerTest_def)

lemma runTest_run_clock:
  assumes "clock w = run_clock T @ rest" and "comments (dbfile w) \<noteq> None"
    and "comment_high (dbfile w) + int chunkSize \<le> max_rowid"
  shows "\<exists>r w'. runTest P w = Inr (r, w') \<and> clock w' = rest \<and> writes r = 100 \<and>
           reads r = 1 \<and> updates r = 1 \<and> deletes r = 1"
proof -
  let ?sid = "''test_'' @ show_int T" and ?ts = "\<lfloor>seconds T\<rfloor>"
  let ?w2 = "w\<lparr>clock := [T, T + 1, T + 3000, T + 3000, T + 3000, T + 6000, T + 6000, T + 9000,
                          T + 9000, T + 12000, T + 12000] @ rest\<rparr>"
  from assms(2) obtain t where t: "comments (dbfile w) = Some t" by auto
  have room: "high t + int chunkSize \<le> max_rowid" using assms(3) t by (simp add: comment_high_def)
  have c: "seconds (T + 1) - seconds T < of_int maxSecondsPerTest"
    "\<not> seconds (T + 3000) - seconds T < of_int maxSecondsPerTest"
    "\<not> seconds (T + 6000) - seconds (T + 3000) < of_int maxSecondsPerTest"
    "\<not> seconds (T + 9000) - seconds (T + 6000) < of_int maxSecondsPerTest"
    "\<not> seconds (T + 12000) - seconds (T + 9000) < of_int maxSecondsPerTest"
    by (simp_all add: seconds_def maxSecondsPerTest_def field_simps)
  have "clock ?w2 = T # (T + 1) # (T + 3000) # (T + 3000) #
      ((T + 3000) # (T + 6000) # (T + 6000) # (T + 9000) # (T + 9000) # (T + 12000) #
       (T + 12000) # rest)"
    "comments (dbfile ?w2) = Some t"
    using t by simp_all
  from write_phase_once [OF this(1) c(1,2) this(2) room, of P ?sid ?ts] obtain wrate w4 where
    wp: "write_phase P ?sid ?ts ?w2
         = Inr (seconds T, map double_of_int (ids_from (high t) chunkSize), chunkSize, wrate, w4)"
    and w4: "clock w4 = (T + 3000) # (T + 6000) # ((T + 6000) # (T + 9000) # (T + 9000) #
              (T + 12000) # (T + 12000) # rest)" "comments (dbfile w4) \<noteq> None"
    by auto
  let ?xs = "map double_of_int (ids_from (high t) chunkSize)"
  from read_phase_once [OF w4(1) c(3) w4(2), of P ?xs] obtain rrate w5 where
    rp: "read_phase P ?xs w4 = Inr (1, rrate, w5)" and
    w5: "clock w5 = (T + 6000) # (T + 9000) # ((T + 9000) # (T + 12000) # (T + 12000) # rest)"
      "comments (dbfile w5) \<noteq> None"
    by auto
  from update_phase_once [OF w5(1) c(4) w5(2), of P ?xs] obtain urate w6 where
    up: "update_phase P ?xs w5 = Inr (1, urate, w6)" and
    w6: "clock w6 = (T + 9000) # (T + 12000) # ((T + 12000) # rest)"
      "comments (dbfile w6) \<noteq> None"
    by auto
  have "?xs \<noteq> []" by (simp add: ids_from_def chunkSize_def)
  from delete_phase_once [OF w6(1) c(5) w6(2) this] obtain drate w7 where
    dp: "delete_phase ?xs w6
          = Inr (butlast ?xs, 1, seconds (T + 12000) - seconds (T + 9000), drate, w7)" and
    w7: "clock w7 = (T + 12000) # rest" "comments (dbfile w7) \<noteq> None"
    by auto
  from w7(2) obtain t7 where t7: "comments (dbfile w7) = Some t7" by auto
  show ?thesis
    using assms(1) t wp rp up dp w7(1) t7
    by (simp add: runTest_def run_clock_def then_do_def Date_now_def prepare_comments_def
        delete_session_def log_stmt_def chunkSize_def)
qed

lemma delete_phase_twice:
  assumes "clock w = t0 # now # later # rest"
    and "seconds now - seconds t0 < of_int maxSecondsPerTest"
    and "\<not> seconds later - seconds t0 < of_int maxSecondsPerTest"
    and "comments (dbfile w) \<noteq> None" and "2 \<le> length nr"
  shows "\<exists>rate w'. delete_phase nr w
             = Inr (butlast (butlast nr), 2, seconds later - seconds t0, rate, w') \<and>
           clock w' = rest \<and> comments (dbfile w') \<noteq> None \<and>
           trace w' = trace w @ [DeleteComment (Some (last nr)),
                                 DeleteComment (Some (last (butlast nr)))]"
proof -
  from assms(5) have "0 < length nr" "0 < length nr - Suc 0" "nr \<noteq> []" by auto
  with assms(1-4) show ?thesis
    by (auto simp: delete_phase_def then_do_def Date_now_def deleteStmt_run_def log_stmt_def
        maxSecondsPerTest_def)
qed

lemma deleted_ids_append [simp]: "deleted_ids (a @ b) = deleted_ids a @ deleted_ids b"
  by (induction a rule: deleted_ids.induct) simp_all

lemma deleted_ids_others [simp]:
  "deleted_ids (map InsertComment xs) = []"
  "deleted_ids (map SelectComment ys) = []"
  "deleted_ids (map UpdateComment ys) = []"
  by (induction xs, simp_all, induction ys, simp_all, induction ys, simp_all)

lemma ids_from_snoc: "ids_from h (Suc k) = ids_from h k @ [h + 1 + int k]"
  by (simp add: ids_from_def)

lemma runTest_two_deletes:
  assumes "clock w = two_delete_clock T @ rest" and "comments (dbfile w) = Some t"
    and "high t + int chunkSize \<le> max_rowid"
  shows "\<exists>r w'. runTest P w = Inr (r, w') \<and> writes r = 100 \<and> deletes r = 2 \<and>
           deleted_ids (trace w') = deleted_ids (trace w) @
             [Some (double_of_int (high t + 100)), Some (double_of_int (high t + 99))]"
proof -
  let ?sid = "''test_'' @ show_int T" and ?ts = "\<lfloor>seconds T\<rfloor>"
  let ?w2 = "w\<lparr>clock := [T, T + 1, T + 3000, T + 3000, T + 3000, T + 6000, T + 6000, T + 9000,
                          T + 9000, T + 9001, T + 12000, T + 12000] @ rest\<rparr>"
  note t = assms(2) and room = assms(3)
  have c: "seconds (T + 1) - seconds T < of_int maxSecondsPerTest"
    "\<not> seconds (T + 3000) - seconds T < of_int maxSecondsPerTest"
    "\<not> seconds (T + 6000) - seconds (T + 3000) < of_int maxSecondsPerTest"
    "\<not> seconds (T + 9000) - seconds (T + 6000) < of_int maxSecondsPerTest"
    "seconds (T + 9001) - seconds (T + 9000) < of_int maxSecondsPerTest"
    "\<not> seconds (T + 12000) - seconds (T + 9000) < of_int maxSecondsPerTest"
    by (simp_all add: seconds_def maxSecondsPerTest_def field_simps)
  have w2: "clock ?w2 = T # (T + 1) # (T + 3000) # (T + 3000) #
      ((T + 3000) # (T + 6000) # (T + 6000) # (T + 9000) # (T + 9000) # (T + 9001) #
       (T + 12000) # (T + 12000) # rest)"
    "comments (dbfile ?w2) = Some t" "trace ?w2 = trace w"
    using t by simp_all
  from write_phase_once [OF w2(1) c(1,2) w2(2) room, of P ?sid ?ts] obtain wrate w4 where
    wp: "write_phase P ?sid ?ts ?w2
         = Inr (seconds T, map double_of_int (ids_from (high t) chunkSize), chunkSize, wrate, w4)"
    and w4: "clock w4 = (T + 3000) # (T + 6000) # ((T + 6000) # (T + 9000) # (T + 9000) #
              (T + 9001) # (T + 12000) # (T + 12000) # rest)" "comments (dbfile w4) \<noteq> None"
    by auto
  let ?xs = "map double_of_int (ids_from (high t) chunkSize)"
  from read_phase_once [OF w4(1) c(3) w4(2), of P ?xs] obtain rrate w5 where
    rp: "read_phase P ?xs w4 = Inr (1, rrate, w5)" and
    w5: "clock w5 = (T + 6000) # (T + 9000) # ((T + 9000) # (T + 9001) # (T + 12000) #
           (T + 12000) # rest)"
      "comments (dbfile w5) \<noteq> None"
    by auto
  from update_phase_once [OF w5(1) c(4) w5(2), of P ?xs] obtain urate w6 where
    up: "update_phase P ?xs w5 = Inr (1, urate, w6)" and
    w6: "clock w6 = (T + 9000) # (T + 9001) # (T + 12000) # ((T + 12000) # rest)"
      "comments (dbfile w6) \<noteq> None"
    by auto
  have "2 \<le> length ?xs" by (simp add: chunkSize_def)
  from delete_phase_twice [OF w6(1) c(5,6) w6(2) this] obtain drate w7 where
    dp: "delete_phase ?xs w6
          = Inr (butlast (butlast ?xs), 2, seconds (T + 12000) - seconds (T + 9000), drate, w7)" and
    w7: "clock w7 = (T + 12000) # rest" "comments (dbfile w7) \<noteq> None"
      "trace w7 = trace w6 @ [DeleteComment (Some (last ?xs)),
                              DeleteComment (Some (last (butlast ?xs)))]"
    by auto
  from w7(2) obtain t7 where t7: "comments (dbfile w7) = Some t7" by auto
  have run: "\<exists>r w'. runTest P w = Inr (r, w') \<and> writes r = 100 \<and> deletes r = 2 \<and>
      trace w' = trace w7 @ [DeleteSession ?sid]"
    using assms(1) t wp rp up dp w7(1) t7
    by (simp add: runTest_def two_delete_clock_def then_do_def Date_now_def prepare_comments_def
        delete_session_def log_stmt_def chunkSize_def)
  from write_phase_result [OF wp w2(2)] w2(3) obtain ins where
    "trace w4 = trace w @ map InsertComment ins" by auto
  moreover from read_phase_result [OF rp] obtain sel where
    "trace w5 = trace w4 @ map SelectComment sel" by blast
  moreover from update_phase_result [OF up] obtain upd where
    "trace w6 = trace w5 @ map UpdateComment upd" by blast
  ultimately have d: "deleted_ids (trace w7) = deleted_ids (trace w) @
      [Some (last ?xs), Some (last (butlast ?xs))]"
    using w7(3) by simp
  have k: "chunkSize = Suc (Suc 98)" by (simp add: chunkSize_def)
  have "last ?xs = double_of_int (high t + 100)"
    "last (butlast ?xs) = double_of_int (high t + 99)"
    by (simp_all only: k ids_from_snoc map_append butlast_snoc last_snoc list.map)
       (simp_all add: add.commute)
  with run d show ?thesis by auto
qed

subsection \<open>The loops return when the clock advances\<close>





















subsection \<open>Further facts\<close>

lemma Some_image_list: "set ys \<subseteq> Some ` A \<Longrightarrow> \<exists>zs. ys = map Some zs \<and> set zs \<subseteq> A"
proof (induction ys)
  case Nil
  then show ?case by simp
next
  case (Cons y ys)
  then obtain a zs where "y = Some a" "a \<in> A" "ys = map Some zs" "set zs \<subseteq> A" by auto
  then show ?case by (intro exI [of _ "a # zs"]) simp
qed


lemma delete_session_rows:
  assumes "delete_session s w = Inr w'"
  shows "comment_rows (dbfile w') = filter (\<lambda>row. test_session row \<noteq> s) (comment_rows (dbfile w))"
  using assms
  by (auto simp: delete_session_def log_stmt_def comment_rows_def split: option.splits)

lemma floor_half [simp]: "\<lfloor>(1::rat) / 2\<rfloor> = 0"
  by (simp add: floor_eq_iff)

section \<open>A run of the examples\<close>

lemma demo_random_range:
  "0 \<le> random_values demo_platform k \<and> random_values demo_platform k < 1"
proof -
  have "k mod 4 < 4" by simp
  then have "(of_nat (k mod 4) :: rat) < of_nat 4" by (simp only: of_nat_less_iff)
  then show ?thesis by (simp add: demo_platform_def)
qed

lemma demo_run:
  "\<exists>r w'. runTest demo_platform (opened_world (run_clock 5000)) = Inr (r, w') \<and> clock w' = [] \<and>
     writes r = 100 \<and> reads r = 1 \<and> updates r = 1 \<and> deletes r = 1"
  by (rule runTest_run_clock [where rest = "[]"])
     (simp_all add: opened_world_def comment_high_def high_def chunkSize_def max_rowid_def)

section \<open>The workload generator\<close>




text \<open>
  Claim C5, as stated, has every identifier used be the identifier of a row created by
  the run, and has the delete phase delete each identifier at most once. What the write
  phase appends to \<open>newRecords\<close> is \<^verbatim>\<open>result.lastInsertRowid\<close>, a JavaScript number: the
  double nearest to the row id. Above \<open>2^53\<close> two neighbouring row ids have the same
  double. In the run below the comments table has handed out the row ids up to \<open>2^53\<close>;
  the last two rows of the batch, \<open>2^53 + 99\<close> and \<open>2^53 + 100\<close>, are both known as
  \<open>2^53 + 100\<close>, and the two iterations of the delete phase are given that identifier
  twice.
\<close>

theorem runTest_deletes_twice:
  "deleted_ids (statements_run (runTest demo_platform (crowded_world (two_delete_clock 5000))))
     = [Some 9007199254741092, Some 9007199254741092]"
proof -
  let ?w = "crowded_world (two_delete_clock 5000)"
  let ?t = "\<lparr>rows = [], seq = 9007199254740992\<rparr> :: comment table"
  have "clock ?w = two_delete_clock 5000 @ []" "comments (dbfile ?w) = Some ?t"
    "high ?t + int chunkSize \<le> max_rowid"
    by (simp_all add: crowded_world_def opened_world_def high_def chunkSize_def max_rowid_def)
  from runTest_two_deletes [OF this, of demo_platform] obtain r w' where
    "runTest demo_platform ?w = Inr (r, w')"
    "deleted_ids (trace w') = deleted_ids (trace ?w) @
       [Some (double_of_int (high ?t + 100)), Some (double_of_int (high ?t + 99))]"
    by blast
  then show ?thesis
    by (simp add: statements_run_def crowded_world_def opened_world_def high_def
        double_of_int_tie)
qed

text \<open>
  Claim C5, amended. In a run of \<open>runTest\<close> that returns and whose write phase has
  produced at least one record, with \<^verbatim>\<open>Math.random()\<close> in the interval from 0 (included)
  to 1 (excluded), on a comments table whose row ids, those of this run included, do
  not exceed \<open>2^53\<close> in absolute value: the statements of the run are the inserts, then
  the reads, then the updates, then the deletes, then the cleanup; every identifier
  read, updated or deleted is the row id of a row this run has inserted; the
  identifiers deleted are pairwise different, being the last ones of \<open>newRecords\<close> in
  reverse order; and the delete phase ends with \<open>newRecords\<close> empty or with the budget
  elapsed.
\<close>

theorem runTest_known_identifiers:
  assumes "runTest P w = Inr (r, w')" and "0 < writes r"
    and "\<And>k. 0 \<le> random_values P k \<and> random_values P k < 1"
    and "\<bar>comment_high (dbfile w)\<bar> + int (writes r) \<le> 2 ^ 53"
  shows "\<exists>ids rs us ds rest sid dd.
           trace w' = trace w @ map InsertComment ids @ map SelectComment (map Some rs) @
             map UpdateComment (map Some us) @ map (\<lambda>i. DeleteComment (Some i)) ds @
             [DeleteSession sid] \<and>
           length ids = writes r \<and> length rs = reads r \<and> length us = updates r \<and>
           length ds = deletes r \<and>
           set rs \<subseteq> set ids \<and> set us \<subseteq> set ids \<and> set ds \<subseteq> set ids \<and>
           distinct ids \<and> distinct ds \<and> ids = rest @ rev ds \<and>
           deletesPerSecond r = Math_round (divide_js (of_nat (deletes r)) dd) \<and>
           (rest = [] \<or> of_int maxSecondsPerTest \<le> dd)"
  using assms(1)
proof (rule runTest_parts)
  fix t_session t_stamp w2 ws xs wrate w4 rrate w5 urate w6 rest dd drate w7 w8 t_end
  assume w2: "trace w2 = trace w" "comments (dbfile w2) \<noteq> None" "dbfile w2 = dbfile w"
    and wp: "write_phase P (''test_'' @ show_int t_session) \<lfloor>seconds t_stamp\<rfloor> w2
              = Inr (ws, xs, writes r, wrate, w4)"
    and rp: "read_phase P xs w4 = Inr (reads r, rrate, w5)"
    and up: "update_phase P xs w5 = Inr (updates r, urate, w6)"
    and dp: "delete_phase xs w6 = Inr (rest, deletes r, dd, drate, w7)"
    and ds: "delete_session (''test_'' @ show_int t_session) w7 = Inr w8"
    and d: "Date_now w8 = Inr (t_end, w')"
    and dr: "deletesPerSecond r = drate"
  from w2(2) obtain t where t: "comments (dbfile w2) = Some t" by auto
  from write_phase_result [OF wp t] obtain m where
    m: "xs = map double_of_int (ids_from (high t) (m * chunkSize))" "writes r = m * chunkSize"
      "trace w4 = trace w2 @ map InsertComment (ids_from (high t) (m * chunkSize))"
    by blast
  have h: "\<bar>high t\<bar> + int (writes r) \<le> 2 ^ 53"
    using assms(4) t w2(3) by (simp add: comment_high_def)
  have "map double_of_int (ids_from (high t) (writes r)) = ids_from (high t) (writes r)"
  proof (rule map_idI)
    fix i assume "i \<in> set (ids_from (high t) (writes r))"
    then have "high t < i" "i \<le> high t + int (writes r)" by (auto simp: ids_from_def)
    with h have "\<bar>i\<bar> \<le> 2 ^ 53" by linarith
    then show "double_of_int i = i" by (rule double_of_int_exact)
  qed
  with m have xs: "xs = ids_from (high t) (writes r)"
    and tr4: "trace w4 = trace w2 @ map InsertComment xs"
    by simp_all
  have len: "length xs = writes r" using xs by simp
  with assms(2) have ne: "xs \<noteq> []" by auto
  have dist: "distinct xs" using xs by (simp add: distinct_ids_from)
  note range = picks_in_range [OF ne assms(3)]
  from read_phase_result [OF rp] obtain ids_r where
    r: "reads r = length ids_r" "trace w5 = trace w4 @ map SelectComment ids_r"
      "set ids_r \<subseteq> picks P xs"
    by blast
  from Some_image_list [of ids_r "set xs"] r(3) range obtain rs where
    rs: "ids_r = map Some rs" "set rs \<subseteq> set xs" by blast
  from update_phase_result [OF up] obtain ids_u where
    u: "updates r = length ids_u" "trace w6 = trace w5 @ map UpdateComment ids_u"
      "set ids_u \<subseteq> picks P xs"
    by blast
  from Some_image_list [of ids_u "set xs"] u(3) range obtain us where
    us: "ids_u = map Some us" "set us \<subseteq> set xs" by blast
  from delete_phase_result [OF dp] obtain popped where
    p: "xs = rest @ rev popped" "deletes r = length popped"
      "trace w7 = trace w6 @ map (\<lambda>i. DeleteComment (Some i)) popped"
      "\<not> dd < of_int maxSecondsPerTest \<or> rest = []"
      "drate = Math_round (divide_js (of_nat (deletes r)) dd)"
    by blast
  have pd: "distinct popped" "set popped \<subseteq> set xs"
    using dist p(1) by (metis distinct_append distinct_rev, metis Un_upper2 set_append set_rev)
  have tr: "trace w' = trace w7 @ [DeleteSession (''test_'' @ show_int t_session)]"
    using delete_session_Inr(1) [OF ds] Date_now_Inr(2) [OF d] by simp
  have "trace w' = trace w @ map InsertComment xs @ map SelectComment (map Some rs) @
      map UpdateComment (map Some us) @ map (\<lambda>i. DeleteComment (Some i)) popped @
      [DeleteSession (''test_'' @ show_int t_session)]"
    using tr p(3) u(2) r(2) tr4 w2(1) rs(1) us(1) by simp
  moreover have "length rs = reads r" "length us = updates r"
    using r(1) u(1) rs(1) us(1) by simp_all
  moreover have "rest = [] \<or> of_int maxSecondsPerTest \<le> dd" using p(4) by auto
  ultimately show ?thesis
    using len rs(2) us(2) pd dist p(1,2,5) dr
    by (intro exI [of _ xs] exI [of _ rs] exI [of _ us] exI [of _ popped] exI [of _ rest]
        exI [of _ "''test_'' @ show_int t_session"] exI [of _ dd]) simp
qed

theorem runTest_known_identifiers_witness:
  "\<exists>r w'. runTest demo_platform (opened_world (run_clock 5000)) = Inr (r, w') \<and> writes r = 100 \<and>
     (\<exists>ids rs us ds rest sid dd.
        trace w' = trace (opened_world (run_clock 5000)) @ map InsertComment ids @
          map SelectComment (map Some rs) @ map UpdateComment (map Some us) @
          map (\<lambda>i. DeleteComment (Some i)) ds @ [DeleteSession sid] \<and>
        length ids = 100 \<and> length rs = 1 \<and> length us = 1 \<and> length ds = 1 \<and>
        set rs \<subseteq> set ids \<and> set us \<subseteq> set ids \<and> set ds \<subseteq> set ids \<and>
        distinct ids \<and> distinct ds \<and> ids = rest @ rev ds \<and>
        deletesPerSecond r = Math_round (divide_js 1 dd) \<and>
        (rest = [] \<or> of_int maxSecondsPerTest \<le> dd))"
proof -
  from demo_run obtain r w' where
    run: "runTest demo_platform (opened_world (run_clock 5000)) = Inr (r, w')" and
    n: "writes r = 100" "reads r = 1" "updates r = 1" "deletes r = 1"
    by blast
  have pos: "0 < writes r" using n(1) by simp
  have room: "\<bar>comment_high (dbfile (opened_world (run_clock 5000)))\<bar> + int (writes r) \<le> 2 ^ 53"
    using n(1) by (simp add: opened_world_def comment_high_def high_def)
  from runTest_known_identifiers [OF run pos demo_random_range room] n run show ?thesis
    by simp
qed

text \<open>
  Claim C6. When \<open>runTest\<close> returns, no row of the comments table carries the session
  tag of the run, which is \<^verbatim>\<open>test_\<close> followed by the first clock reading of the run.
  The rows the write phase has inserted, as many as \<open>writes\<close> counts, all carry that
  tag, and none of their row ids is left in the table; and every row that is left is,
  up to its content, a row the table held before the run under another tag.
\<close>

theorem runTest_cleanup:
  assumes "runTest P w = Inr (r, w')" and "clock w = t # rest"
  shows "filter (\<lambda>row. test_session row = ''test_'' @ show_int t) (comment_rows (dbfile w')) = [] \<and>
         kept (filter (\<lambda>row. test_session row \<noteq> ''test_'' @ show_int t) (comment_rows (dbfile w)))
           (comment_rows (dbfile w')) \<and>
         (\<exists>t_stamp w2 ws newRecords rate w4 new.
            write_phase P (''test_'' @ show_int t) \<lfloor>seconds t_stamp\<rfloor> w2
              = Inr (ws, newRecords, writes r, rate, w4) \<and>
            dbfile w2 = dbfile w \<and>
            comment_rows (dbfile w4) = comment_rows (dbfile w) @ new \<and>
            length new = writes r \<and>
            (\<forall>row\<in>set new. test_session row = ''test_'' @ show_int t) \<and>
            (\<forall>row\<in>set new. comment_id row \<notin> comment_id ` set (comment_rows (dbfile w'))))"
  using assms(1)
proof (rule runTest_parts)
  fix t_session t_stamp w2 ws xs wrate w4 rrate w5 urate w6 rest' dd drate w7 w8 t_end
  assume c: "clock w = t_session # t_stamp # clock w2"
    and w2: "dbfile w2 = dbfile w" "comments (dbfile w2) \<noteq> None"
    and wp: "write_phase P (''test_'' @ show_int t_session) \<lfloor>seconds t_stamp\<rfloor> w2
              = Inr (ws, xs, writes r, wrate, w4)"
    and rp: "read_phase P xs w4 = Inr (reads r, rrate, w5)"
    and up: "update_phase P xs w5 = Inr (updates r, urate, w6)"
    and dp: "delete_phase xs w6 = Inr (rest', deletes r, dd, drate, w7)"
    and ds: "delete_session (''test_'' @ show_int t_session) w7 = Inr w8"
    and d: "Date_now w8 = Inr (t_end, w')"
  let ?sid = "''test_'' @ show_int t"
  from c assms(2) have ts: "t_session = t" by simp
  from w2(2) obtain tb where tb: "comments (dbfile w2) = Some tb" by auto
  from write_phase_result [OF wp tb] obtain m t4 new where
    m: "writes r = m * chunkSize" "comments (dbfile w4) = Some t4" "rows t4 = rows tb @ new"
      "map comment_id new = ids_from (high tb) (m * chunkSize)"
      "\<forall>row\<in>set new. test_session row = ?sid"
    using ts by blast
  have before: "comment_rows (dbfile w) = rows tb" using tb w2(1) by (simp add: comment_rows_def)
  have r4: "comment_rows (dbfile w4) = comment_rows (dbfile w) @ new"
    using m(2,3) before by (simp add: comment_rows_def)
  have len: "length new = writes r"
    using m(1,4) length_map [of comment_id new] by simp
  from read_phase_result [OF rp] have r5: "dbfile w5 = dbfile w4" by blast
  from update_phase_result [OF up] have
    k6: "kept (comment_rows (dbfile w5)) (comment_rows (dbfile w6))" by blast
  from delete_phase_result [OF dp] have
    k7: "kept (comment_rows (dbfile w6)) (comment_rows (dbfile w7))" by blast
  have k: "kept (comment_rows (dbfile w) @ new) (comment_rows (dbfile w7))"
    using k6 k7 r5 r4 by (auto intro: kept_trans)
  have last: "comment_rows (dbfile w')
      = filter (\<lambda>row. test_session row \<noteq> ?sid) (comment_rows (dbfile w7))"
    using delete_session_rows [OF ds] Date_now_Inr(3) [OF d] ts by simp
  have origin: "\<exists>before\<in>set (comment_rows (dbfile w)).
      test_session before \<noteq> ?sid \<and> same_row before row"
    if "row \<in> set (comment_rows (dbfile w'))" for row
  proof -
    from that last have row: "row \<in> set (comment_rows (dbfile w7))" "test_session row \<noteq> ?sid"
      by simp_all
    from k row(1) obtain b where
      b: "b \<in> set (comment_rows (dbfile w) @ new)" "same_row b row"
      by (auto simp: kept_def)
    from b(2) row(2) have "test_session b \<noteq> ?sid" by (simp add: same_row_def)
    with b m(5) show ?thesis by auto
  qed
  have none: "filter (\<lambda>row. test_session row = ?sid) (comment_rows (dbfile w')) = []"
    using delete_session_Inr(4) [OF ds] Date_now_Inr(3) [OF d] ts by simp
  have old: "kept (filter (\<lambda>row. test_session row \<noteq> ?sid) (comment_rows (dbfile w)))
      (comment_rows (dbfile w'))"
    unfolding kept_def using origin by auto
  have gone: "\<forall>row\<in>set new. comment_id row \<notin> comment_id ` set (comment_rows (dbfile w'))"
  proof (intro ballI notI)
    fix row assume row: "row \<in> set new"
      and "comment_id row \<in> comment_id ` set (comment_rows (dbfile w'))"
    then obtain left where left: "left \<in> set (comment_rows (dbfile w'))"
      "comment_id left = comment_id row" by auto
    from origin [OF left(1)] obtain b where
      b: "b \<in> set (comment_rows (dbfile w))" "same_row b left" by blast
    from b(1) before have "comment_id b \<in> set (map comment_id (rows tb))" by simp
    from fold_max_mem [OF this, of "seq tb"] have "comment_id b \<le> high tb"
      by (simp add: high_def)
    moreover from row have "comment_id row \<in> set (map comment_id new)" by simp
    then have "high tb < comment_id row" using m(4) by (auto simp: ids_from_def)
    ultimately show False using b(2) left(2) by (simp add: same_row_def)
  qed
  from wp ts w2(1) r4 len m(5) gone none old show ?thesis by blast
qed

theorem runTest_cleanup_witness:
  "\<exists>r w'. runTest demo_platform (opened_world (run_clock 5000)) = Inr (r, w') \<and>
     writes r = 100 \<and> comment_rows (dbfile w') = [] \<and>
     (\<exists>t_stamp w2 ws newRecords rate w4 new.
        write_phase demo_platform (''test_'' @ show_int 5000) \<lfloor>seconds t_stamp\<rfloor> w2
          = Inr (ws, newRecords, 100, rate, w4) \<and>
        comment_rows (dbfile w4) = new \<and> length new = 100 \<and>
        (\<forall>row\<in>set new. test_session row = ''test_'' @ show_int 5000))"
proof -
  from demo_run obtain r w' where
    run: "runTest demo_platform (opened_world (run_clock 5000)) = Inr (r, w')" and
    n: "writes r = 100"
    by blast
  have c: "clock (opened_world (run_clock 5000)) = 5000 # tl (run_clock 5000)"
    by (simp add: opened_world_def run_clock_def)
  have e: "comment_rows (dbfile (opened_world (run_clock 5000))) = []"
    by (simp add: opened_world_def comment_rows_def)
  from runTest_cleanup [OF run c] obtain t_stamp w2 ws newRecords rate w4 new where
    k: "kept (filter (\<lambda>row. test_session row \<noteq> ''test_'' @ show_int 5000)
              (comment_rows (dbfile (opened_world (run_clock 5000)))))
         (comment_rows (dbfile w'))" and
    wp: "write_phase demo_platform (''test_'' @ show_int 5000) \<lfloor>seconds t_stamp\<rfloor> w2
          = Inr (ws, newRecords, writes r, rate, w4)" and
    new: "comment_rows (dbfile w4) = comment_rows (dbfile (opened_world (run_clock 5000))) @ new"
      "length new = writes r" "\<forall>row\<in>set new. test_session row = ''test_'' @ show_int 5000"
    by blast
  from k e have "comment_rows (dbfile w') = []"
    by (cases "comment_rows (dbfile w')") (auto simp: kept_def)
  moreover have "comment_rows (dbfile w4) = new" using new(1) e by simp
  ultimately show ?thesis using run n wp new(2,3)
    by (intro exI [of _ r] exI [of _ w'] conjI exI [of _ t_stamp] exI [of _ w2] exI [of _ ws]
        exI [of _ newRecords] exI [of _ rate] exI [of _ w4] exI [of _ new]) simp_all
qed

text \<open>
  Claim C7. In every result of \<open>runTest\<close>, \<open>totalOperations\<close> is the sum of the four
  counters, and \<open>operationsPerSecond\<close> is \<^verbatim>\<open>Math.round\<close> of \<open>totalOperations\<close> divided by
  the budget times 4, that is by 12: an integer at most one half away from the
  quotient.
\<close>

theorem runTest_aggregate:
  assumes "runTest P w = Inr (r, w')"
  shows "totalOperations r = writes r + reads r + updates r + deletes r \<and>
         operationsPerSecond r =
           Math_round (divide_js (of_nat (totalOperations r)) (of_int (maxSecondsPerTest * 4))) \<and>
         operationsPerSecond r = Num (of_int ((int (totalOperations r) + 6) div 12)) \<and>
         \<bar>of_int ((int (totalOperations r) + 6) div 12) - (of_nat (totalOperations r) :: rat) / 12\<bar>
           \<le> 1 / 2"
proof -
  from assms obtain tot where
    tot: "totalOperations r = tot" "tot = writes r + reads r + updates r + deletes r"
      "operationsPerSecond r = Math_round (divide_js (of_nat tot) (of_int (maxSecondsPerTest * 4)))"
    by (auto simp: runTest_def then_do_Inr)
  have r: "Math_round (divide_js (of_nat tot) (of_int (maxSecondsPerTest * 4)))
      = Num (of_int ((int tot + 6) div 12))"
    using round_twelfths [of tot] by (simp add: divide_js_def maxSecondsPerTest_def)
  have "\<bar>of_int \<lfloor>(of_nat tot :: rat) / 12 + 1 / 2\<rfloor> - (of_nat tot :: rat) / 12\<bar> \<le> 1 / 2"
    by linarith
  then have n: "\<bar>of_int ((int tot + 6) div 12) - (of_nat tot :: rat) / 12\<bar> \<le> 1 / 2"
    by (simp only: round_twelfths)
  from tot r n show ?thesis by simp
qed

theorem runTest_aggregate_witness:
  "\<exists>r w'. runTest demo_platform (opened_world (run_clock 5000)) = Inr (r, w') \<and>
     writes r = 100 \<and> reads r = 1 \<and> updates r = 1 \<and> deletes r = 1 \<and>
     totalOperations r = 103 \<and> operationsPerSecond r = Num 9"
proof -
  from demo_run obtain r w' where
    run: "runTest demo_platform (opened_world (run_clock 5000)) = Inr (r, w')" and
    n: "writes r = 100" "reads r = 1" "updates r = 1" "deletes r = 1"
    by blast
  from runTest_aggregate [OF run] n have "totalOperations r = 103" "operationsPerSecond r = Num 9"
    by (simp_all add: divide_js_def maxSecondsPerTest_def)
  with run n show ?thesis by blast
qed

lemma Math_round_zero_count: "Math_round (divide_js (of_nat 0) d) = (if d = 0 then NaN else Num 0)"
  by (simp add: divide_js_def)


lemma runTest_steady:
  assumes "runTest P w = Inr (r, w')"
  shows "steady w w'"
  using assms
proof (rule runTest_parts)
  fix t_session t_stamp w2 ws xs wrate w4 rrate w5 urate w6 rest dd drate w7 w8 t_end
  assume w2: "steady w w2" "comments (dbfile w2) \<noteq> None"
    and wp: "write_phase P (''test_'' @ show_int t_session) \<lfloor>seconds t_stamp\<rfloor> w2
              = Inr (ws, xs, writes r, wrate, w4)"
    and rp: "read_phase P xs w4 = Inr (reads r, rrate, w5)"
    and up: "update_phase P xs w5 = Inr (updates r, urate, w6)"
    and dp: "delete_phase xs w6 = Inr (rest, deletes r, dd, drate, w7)"
    and ds: "delete_session (''test_'' @ show_int t_session) w7 = Inr w8"
    and d: "Date_now w8 = Inr (t_end, w')"
  from w2(2) obtain t where t: "comments (dbfile w2) = Some t" by auto
  from write_phase_result [OF wp t] have "steady w2 w4" by blast
  moreover from read_phase_result [OF rp] have "steady w4 w5" by blast
  moreover from update_phase_result [OF up] have "steady w5 w6" by blast
  moreover from delete_phase_result [OF dp] have "steady w6 w7" by blast
  moreover note delete_session_Inr(2) [OF ds] Date_now_Inr(4) [OF d] w2(1)
  ultimately show ?thesis by (blast intro: steady_trans)
qed





section \<open>The result cache\<close>

lemma select_cache_init:
  "select_cache (initDatabase w) = Inr (cached_row w, log_stmt SelectCache (initDatabase w))"
  by (simp add: select_cache_def initDatabase_def create_table_if_not_exists_def cached_row_def
      cache_rows_def split: option.splits)

lemma initDatabase_rows:
  "cache_rows (dbfile (initDatabase w)) = cache_rows (dbfile w)"
  "comment_rows (dbfile (initDatabase w)) = comment_rows (dbfile w)"
  by (simp_all add: initDatabase_def create_table_if_not_exists_def cache_rows_def
      comment_rows_def split: option.splits)

lemma initDatabase_twice: "dbfile (initDatabase (initDatabase w)) = dbfile (initDatabase w)"
  by (simp add: initDatabase_def create_table_if_not_exists_def split: option.splits)

lemma initDatabase_keeps_table:
  "test_results_cache (dbfile w) = Some t \<Longrightarrow> test_results_cache (dbfile (initDatabase w)) = Some t"
  by (simp add: initDatabase_def create_table_if_not_exists_def)

lemma cached_row_table:
  "cached_row w = Some row \<Longrightarrow> \<exists>t. test_results_cache (dbfile w) = Some t"
  by (auto simp: cached_row_def cache_rows_def split: option.splits)

lemma getCachedTest_hit:
  assumes "cached_row w = Some row" and "clock w = now # rest"
    and "seconds now - of_int (timestamp row) < of_int maxCacheSeconds"
  shows "getCachedTest P w =
           (case JSON_parse P (result row) of
              None \<Rightarrow> Inl SyntaxError
            | Some v \<Rightarrow> Inr (FromCache v, (log_stmt SelectCache (initDatabase w))\<lparr>clock := rest\<rparr>))"
proof -
  have "clock (log_stmt SelectCache (initDatabase w)) = now # rest"
    using assms(2) by (simp add: log_stmt_def initDatabase_def)
  then show ?thesis
    using assms(1,3) by (simp add: getCachedTest_def select_cache_init then_do_def Date_now_def)
qed

lemma getCachedTest_no_row:
  assumes "cached_row w = None"
  shows "getCachedTest P w = run_and_store P (log_stmt SelectCache (initDatabase w))"
  using assms by (simp add: getCachedTest_def select_cache_init then_do_def)

lemma getCachedTest_stale:
  assumes "cached_row w = Some row" and "clock w = now # rest"
    and "\<not> seconds now - of_int (timestamp row) < of_int maxCacheSeconds"
  shows "getCachedTest P w
         = run_and_store P ((log_stmt SelectCache (initDatabase w))\<lparr>clock := rest\<rparr>)"
proof -
  have "clock (log_stmt SelectCache (initDatabase w)) = now # rest"
    using assms(2) by (simp add: log_stmt_def initDatabase_def)
  then show ?thesis
    using assms(1,3) by (simp add: getCachedTest_def select_cache_init then_do_def Date_now_def)
qed

lemma getCachedTest_cases:
  assumes "getCachedTest P w = Inr (reply, w')"
  obtains (hit) row now rest v where "cached_row w = Some row" and "clock w = now # rest"
      and "seconds now - of_int (timestamp row) < of_int maxCacheSeconds"
      and "JSON_parse P (result row) = Some v" and "reply = FromCache v"
      and "w' = (log_stmt SelectCache (initDatabase w))\<lparr>clock := rest\<rparr>"
  | (miss) w1 where "run_and_store P w1 = Inr (reply, w')"
      and "\<exists>c. w1 = (log_stmt SelectCache (initDatabase w))\<lparr>clock := c\<rparr>"
      and "cached_row w = None \<or> (\<exists>row now rest. cached_row w = Some row \<and> clock w = now # rest \<and>
             \<not> seconds now - of_int (timestamp row) < of_int maxCacheSeconds)"
proof (cases "cached_row w")
  case None
  from assms getCachedTest_no_row [OF None, of P]
  have "run_and_store P (log_stmt SelectCache (initDatabase w)) = Inr (reply, w')" by simp
  moreover have "\<exists>c. log_stmt SelectCache (initDatabase w)
      = (log_stmt SelectCache (initDatabase w))\<lparr>clock := c\<rparr>"
    by (intro exI [of _ "clock (log_stmt SelectCache (initDatabase w))"]) simp
  ultimately show ?thesis using None by (intro miss) auto
next
  case (Some row)
  show ?thesis
  proof (cases "clock w")
    case Nil
    then have "clock (log_stmt SelectCache (initDatabase w)) = []"
      by (simp add: log_stmt_def initDatabase_def)
    with assms Some have False
      by (simp add: getCachedTest_def select_cache_init then_do_def Date_now_def)
    then show ?thesis ..
  next
    case (Cons now rest)
    show ?thesis
    proof (cases "seconds now - of_int (timestamp row) < of_int maxCacheSeconds")
      case True
      from assms getCachedTest_hit [OF Some Cons True, of P] obtain v where
        "JSON_parse P (result row) = Some v" "reply = FromCache v"
        "w' = (log_stmt SelectCache (initDatabase w))\<lparr>clock := rest\<rparr>"
        by (auto split: option.splits)
      with Some Cons True show ?thesis by (intro hit)
    next
      case False
      from assms getCachedTest_stale [OF Some Cons False, of P]
      have "run_and_store P ((log_stmt SelectCache (initDatabase w))\<lparr>clock := rest\<rparr>)
            = Inr (reply, w')" by simp
      with Some Cons False show ?thesis by (intro miss) auto
    qed
  qed
qed

lemma initDatabase_high:
  "comment_high (dbfile (initDatabase w)) = comment_high (dbfile w)"
  "cache_seq (dbfile (initDatabase w)) = cache_seq (dbfile w)"
  by (simp_all add: initDatabase_def create_table_if_not_exists_def comment_high_def
      cache_seq_def high_def split: option.splits)

lemma run_and_store_returns:
  assumes "runTest P w = Inr (r, w2)" and "clock w2 = t # rest"
    and "test_results_cache (dbfile w2) \<noteq> None" and "cache_seq (dbfile w2) < max_rowid"
  shows "\<exists>w'. run_and_store P w = Inr (FromRun r, w')"
  using assms
  by (auto simp: run_and_store_def then_do_def delete_cache_def Date_now_def insert_cache_def
      log_stmt_def Let_def next_cache_id_def cache_seq_def)

lemma run_and_store_result:
  assumes "run_and_store P w = Inr (reply, w')"
  shows "\<exists>r w2 t i. runTest P w = Inr (r, w2) \<and> reply = FromRun r \<and> clock w2 = t # clock w' \<and>
           cache_rows (dbfile w')
             = [\<lparr>cache_id = i, result = JSON_stringify P r, timestamp = \<lfloor>seconds t\<rfloor>\<rparr>] \<and>
           trace w' = trace w2 @ [DeleteCache, InsertCache i] \<and>
           db w' = db w2 \<and> connections w' = connections w2 \<and>
           comments (dbfile w') = comments (dbfile w2)"
proof -
  from assms obtain r w2 w3 t w4 where
    run: "runTest P w = Inr (r, w2)" and dc: "delete_cache w2 = Inr w3" and
    d: "Date_now w3 = Inr (t, w4)" and
    ic: "insert_cache (JSON_stringify P r) \<lfloor>seconds t\<rfloor> w4 = Inr w'" and
    reply: "reply = FromRun r"
    by (auto simp: run_and_store_def then_do_Inr)
  from dc obtain tb where tb: "test_results_cache (dbfile w2) = Some tb" and
    w3: "w3 = log_stmt DeleteCache
           (w2\<lparr>dbfile := (dbfile w2)\<lparr>test_results_cache := Some (tb\<lparr>rows := []\<rparr>)\<rparr>\<rparr>)"
    by (auto simp: delete_cache_def split: option.splits)
  from d obtain rest where w4: "clock w3 = t # rest" "w4 = w3\<lparr>clock := rest\<rparr>"
    by (auto simp: Date_now_def split: list.splits)
  let ?i = "next_cache_id (tb\<lparr>rows := []\<rparr>)"
  from ic w3 w4 have w': "w' = log_stmt (InsertCache ?i)
      (w4\<lparr>dbfile := (dbfile w4)\<lparr>test_results_cache :=
         Some \<lparr>rows = [\<lparr>cache_id = ?i, result = JSON_stringify P r, timestamp = \<lfloor>seconds t\<rfloor>\<rparr>],
               seq = ?i\<rparr>\<rparr>\<rparr>)"
    by (auto simp: insert_cache_def log_stmt_def Let_def split: if_splits)
  show ?thesis
    using run reply w3 w4 w'
    by (intro exI [of _ r] exI [of _ w2] exI [of _ t] exI [of _ ?i])
       (simp add: log_stmt_def cache_rows_def)
qed


lemma cached_world_row:
  "cached_row (cached_world c) = Some \<lparr>cache_id = 1, result = ''{writes:100}'', timestamp = 1000\<rparr>"
  by (simp add: cached_world_def cached_row_def cache_rows_def)





lemma cache_rows_step:
  assumes "getCachedTest P w = Inr (reply, w')"
  shows "(length (cache_rows (dbfile w)) \<le> 1 \<longrightarrow> length (cache_rows (dbfile w')) \<le> 1) \<and>
         (\<forall>r. reply = FromRun r \<longrightarrow> length (cache_rows (dbfile w')) = 1)"
  using assms
proof (cases rule: getCachedTest_cases)
  case (hit row now rest v)
  have "cache_rows (dbfile w') = cache_rows (dbfile w)"
    using hit(6) initDatabase_rows(1) [of w] by (simp add: log_stmt_def)
  with hit(5) show ?thesis by simp
next
  case (miss w1)
  from run_and_store_result [OF miss(1)] have "length (cache_rows (dbfile w')) = 1" by auto
  then show ?thesis by simp
qed

lemma served_rows: "served P w \<Longrightarrow> length (cache_rows (dbfile w)) \<le> 1"
proof (induction rule: served.induct)
  case (new_file w)
  then show ?case by (simp add: cache_rows_def)
next
  case (after_call w reply w' w'')
  with cache_rows_step [of P w reply w'] show ?case by simp
qed

lemma getCachedTest_runs:
  assumes "cached_row w = None" and "clock w = run_clock T @ [t]"
    and "comment_high (dbfile w) + int chunkSize \<le> max_rowid"
    and "cache_seq (dbfile w) < max_rowid"
  shows "\<exists>r w'. getCachedTest P w = Inr (FromRun r, w')"
proof -
  let ?w1 = "log_stmt SelectCache (initDatabase w)"
  have w1: "clock ?w1 = run_clock T @ [t]" "comments (dbfile ?w1) \<noteq> None"
    "test_results_cache (dbfile ?w1) \<noteq> None"
    using assms(2)
    by (simp_all add: log_stmt_def initDatabase_def create_table_if_not_exists_def
        split: option.splits)
  have room: "comment_high (dbfile ?w1) + int chunkSize \<le> max_rowid"
    "cache_seq (dbfile ?w1) < max_rowid"
    using assms(3,4) initDatabase_high [of w] by (simp_all add: log_stmt_def)
  from runTest_run_clock [OF w1(1,2) room(1), of P] obtain r w2 where
    run: "runTest P ?w1 = Inr (r, w2)" and c: "clock w2 = [t]"
    by blast
  from runTest_steady [OF run] w1(3) room(2) have "test_results_cache (dbfile w2) \<noteq> None"
    "cache_seq (dbfile w2) < max_rowid"
    by (simp_all add: steady_def cache_seq_def)
  from run_and_store_returns [OF run c this] getCachedTest_no_row [OF assms(1), of P]
  show ?thesis by auto
qed

text \<open>
  Claim C4. In every history of the service that starts on a new database file, after
  every call of \<open>getCachedTest\<close> that returns, the cache table has at most one row; and
  a call that has run the workload leaves exactly one, the \<^verbatim>\<open>DELETE\<close> having removed
  whatever the table held before the \<^verbatim>\<open>INSERT\<close>. In the witness a first call on a new
  file runs the workload and a second call returns the stored result.
\<close>

theorem cache_at_most_one_row:
  assumes "served P w" and "getCachedTest P w = Inr (reply, w')"
  shows "length (cache_rows (dbfile w')) \<le> 1 \<and>
         (\<forall>r. reply = FromRun r \<longrightarrow> length (cache_rows (dbfile w')) = 1)"
  using served_rows [OF assms(1)] cache_rows_step [OF assms(2)] by simp

theorem cache_at_most_one_row_witness:
  "\<exists>r w' v w''.
     getCachedTest demo_platform (new_world (run_clock 5000 @ [17500])) = Inr (FromRun r, w') \<and>
     length (cache_rows (dbfile w')) = 1 \<and>
     getCachedTest demo_platform (w'\<lparr>clock := [18000]\<rparr>) = Inr (FromCache v, w'') \<and>
     length (cache_rows (dbfile w'')) \<le> 1"
proof -
  let ?w = "new_world (run_clock 5000 @ [17500])"
  let ?w1 = "log_stmt SelectCache (initDatabase ?w)"
  have s0: "served demo_platform ?w"
    by (rule served.new_file) (simp add: new_world_def)
  have n: "cached_row ?w = None" "clock ?w = run_clock 5000 @ [17500]"
    "comment_high (dbfile ?w) + int chunkSize \<le> max_rowid" "cache_seq (dbfile ?w) < max_rowid"
    by (simp_all add: new_world_def cached_row_def cache_rows_def comment_high_def cache_seq_def
        chunkSize_def max_rowid_def)
  from getCachedTest_runs [OF n, of demo_platform] obtain r w' where
    g: "getCachedTest demo_platform ?w = Inr (FromRun r, w')" by blast
  from cache_at_most_one_row [OF s0 g] have one: "length (cache_rows (dbfile w')) = 1" by simp
  from g getCachedTest_no_row [OF n(1), of demo_platform]
  have "run_and_store demo_platform ?w1 = Inr (FromRun r, w')" by simp
  from run_and_store_result [OF this] obtain r' w2 t i where
    run: "runTest demo_platform ?w1 = Inr (r', w2)" and c: "clock w2 = t # clock w'" and
    rows: "cache_rows (dbfile w')
      = [\<lparr>cache_id = i, result = JSON_stringify demo_platform r', timestamp = \<lfloor>seconds t\<rfloor>\<rparr>]"
    by blast
  have "clock ?w1 = run_clock 5000 @ [17500]" "comments (dbfile ?w1) \<noteq> None"
    "comment_high (dbfile ?w1) + int chunkSize \<le> max_rowid"
    by (simp_all add: log_stmt_def initDatabase_def create_table_if_not_exists_def new_world_def
        comment_high_def high_def chunkSize_def max_rowid_def)
  from runTest_run_clock [OF this, of demo_platform] run have "clock w2 = [17500]" by auto
  with c have "t = 17500" by simp
  then have ts: "\<lfloor>seconds t\<rfloor> = 17" by (simp add: seconds_def)
  let ?row = "\<lparr>cache_id = i, result = JSON_stringify demo_platform r', timestamp = 17\<rparr>"
  let ?v = "w'\<lparr>clock := [18000]\<rparr>"
  have s1: "served demo_platform ?v"
    by (rule served.after_call [OF s0 g]) simp
  have "cached_row ?v = Some ?row" "clock ?v = 18000 # []"
    "seconds 18000 - of_int (timestamp ?row) < of_int maxCacheSeconds"
    using rows ts by (simp_all add: cached_row_def seconds_def maxCacheSeconds_def)
  from getCachedTest_hit [OF this, of demo_platform] obtain w'' where
    g2: "getCachedTest demo_platform ?v
         = Inr (FromCache (JSON_stringify demo_platform r'), w'')"
    by (simp add: demo_platform_def)
  from cache_at_most_one_row [OF s1 g2] have "length (cache_rows (dbfile w'')) \<le> 1" by simp
  with g one g2 show ?thesis by blast
qed

text \<open>
  Claim C9. On the cache-hit path \<open>getCachedTest\<close> returns what \<^verbatim>\<open>JSON.parse\<close> makes of
  the stored text, or throws what it throws; the cache table is as it was, the
  comments table has the rows it had (the whole file is as it was when that table
  exists), and the \<^verbatim>\<open>SELECT\<close> on the cache is the only statement run.
\<close>

theorem cache_hit_changes_nothing:
  assumes "cached_row w = Some row" and "clock w = now # rest"
    and "seconds now - of_int (timestamp row) < of_int maxCacheSeconds"
  shows "\<exists>w'. getCachedTest P w =
              (case JSON_parse P (result row) of
                 None \<Rightarrow> Inl SyntaxError
               | Some v \<Rightarrow> Inr (FromCache v, w')) \<and>
           test_results_cache (dbfile w') = test_results_cache (dbfile w) \<and>
           cache_rows (dbfile w') = cache_rows (dbfile w) \<and>
           comment_rows (dbfile w') = comment_rows (dbfile w) \<and>
           (comments (dbfile w) \<noteq> None \<longrightarrow> dbfile w' = dbfile w) \<and>
           trace w' = trace w @ [SelectCache]"
proof -
  let ?w' = "(log_stmt SelectCache (initDatabase w))\<lparr>clock := rest\<rparr>"
  from cached_row_table [OF assms(1)] obtain t where t: "test_results_cache (dbfile w) = Some t" ..
  from initDatabase_keeps_table [OF this] this
  have "test_results_cache (dbfile ?w') = test_results_cache (dbfile w)"
    by (simp add: log_stmt_def)
  moreover have "comments (dbfile w) \<noteq> None \<longrightarrow> dbfile ?w' = dbfile w"
  proof
    assume "comments (dbfile w) \<noteq> None"
    then obtain c where "comments (dbfile w) = Some c" by auto
    with t have "dbfile (initDatabase w) = dbfile w"
      by (cases "dbfile w") (simp add: initDatabase_def create_table_if_not_exists_def)
    then show "dbfile ?w' = dbfile w" by (simp add: log_stmt_def)
  qed
  moreover have "cache_rows (dbfile ?w') = cache_rows (dbfile w)"
    "comment_rows (dbfile ?w') = comment_rows (dbfile w)"
    using initDatabase_rows [of w] by (simp_all add: log_stmt_def)
  moreover have "trace ?w' = trace w @ [SelectCache]"
    by (simp add: log_stmt_def initDatabase_def)
  ultimately show ?thesis
    using getCachedTest_hit [OF assms, of P] by (intro exI [of _ ?w']) simp
qed

theorem cache_hit_changes_nothing_witness:
  "\<exists>w'. getCachedTest demo_platform (cached_world [1299000]) = Inr (FromCache ''{writes:100}'', w') \<and>
     test_results_cache (dbfile w') = test_results_cache (dbfile (cached_world [1299000])) \<and>
     dbfile w' = dbfile (cached_world [1299000]) \<and>
     comment_rows (dbfile w') = [] \<and> trace w' = [SelectCache]"
proof -
  have "clock (cached_world [1299000]) = 1299000 # []"
    "seconds 1299000 - of_int (timestamp \<lparr>cache_id = 1, result = ''{writes:100}'',
        timestamp = 1000\<rparr>) < of_int maxCacheSeconds"
    by (simp_all add: cached_world_def opened_world_def seconds_def maxCacheSeconds_def)
  from cache_hit_changes_nothing [OF cached_world_row this, of demo_platform] obtain w' where
    w': "getCachedTest demo_platform (cached_world [1299000]) =
           (case JSON_parse demo_platform
                   (result \<lparr>cache_id = 1, result = ''{writes:100}'', timestamp = 1000\<rparr>) of
              None \<Rightarrow> Inl SyntaxError
            | Some v \<Rightarrow> Inr (FromCache v, w'))"
      "test_results_cache (dbfile w') = test_results_cache (dbfile (cached_world [1299000]))"
      "comment_rows (dbfile w') = comment_rows (dbfile (cached_world [1299000]))"
      "comments (dbfile (cached_world [1299000])) \<noteq> None \<longrightarrow>
         dbfile w' = dbfile (cached_world [1299000])"
      "trace w' = trace (cached_world [1299000]) @ [SelectCache]"
    by blast
  have "getCachedTest demo_platform (cached_world [1299000]) = Inr (FromCache ''{writes:100}'', w')"
    using w'(1) by (simp add: demo_platform_def)
  moreover have "comment_rows (dbfile w') = []" "trace w' = [SelectCache]"
    "dbfile w' = dbfile (cached_world [1299000])"
    using w'(3,4,5) by (simp_all add: cached_world_def opened_world_def comment_rows_def)
  ultimately show ?thesis using w'(2) by blast
qed

text \<open>
  Claim C1, as stated, has an open handle reused. \<open>initDatabase\<close> assigns
  \<^verbatim>\<open>new Database(databaseFile)\<close> to \<^verbatim>\<open>db\<close> with no test of what \<^verbatim>\<open>db\<close> holds: a call of
  \<open>getCachedTest\<close> in a process that holds connection 0 ends holding connection 1,
  the second one opened.
\<close>

theorem getCachedTest_opens_again:
  "db (cached_world [1299000]) = Some 0 \<and> connections (cached_world [1299000]) = 1 \<and>
   getCachedTest demo_platform (cached_world [1299000])
     = Inr (FromCache ''{writes:100}'',
            (initDatabase (cached_world []))\<lparr>trace := [SelectCache]\<rparr>) \<and>
   db (initDatabase (cached_world [])) = Some 1 \<and>
   connections (initDatabase (cached_world [])) = 2"
proof -
  let ?row = "\<lparr>cache_id = 1, result = ''{writes:100}'', timestamp = 1000\<rparr>"
  have "clock (cached_world [1299000]) = 1299000 # []"
    "seconds 1299000 - of_int (timestamp ?row) < of_int maxCacheSeconds"
    by (simp_all add: cached_world_def opened_world_def seconds_def maxCacheSeconds_def)
  from getCachedTest_hit [OF cached_world_row this, of demo_platform] show ?thesis
    by (simp add: demo_platform_def cached_world_def opened_world_def initDatabase_def
        log_stmt_def)
qed

text \<open>
  Claim C1, amended. Every call of \<open>getCachedTest\<close> that returns has opened one more
  connection and left it in the module variable, in place of the handle held before.
  What is idempotent is the creation of the schema: \<open>initDatabase\<close> keeps the rows of
  both tables, and running it twice leaves the file as running it once does.
\<close>

theorem getCachedTest_opens_connection:
  assumes "getCachedTest P w = Inr (reply, w')"
  shows "db w' = Some (connections w) \<and> connections w' = Suc (connections w) \<and>
         db (initDatabase w) = Some (connections w) \<and>
         connections (initDatabase w) = Suc (connections w) \<and>
         cache_rows (dbfile (initDatabase w)) = cache_rows (dbfile w) \<and>
         comment_rows (dbfile (initDatabase w)) = comment_rows (dbfile w) \<and>
         dbfile (initDatabase (initDatabase w)) = dbfile (initDatabase w)"
proof -
  have i: "db (initDatabase w) = Some (connections w)"
    "connections (initDatabase w) = Suc (connections w)"
    by (simp_all add: initDatabase_def)
  have "db w' = db (initDatabase w) \<and> connections w' = connections (initDatabase w)"
    using assms
  proof (cases rule: getCachedTest_cases)
    case (hit row now rest v)
    then show ?thesis by (simp add: log_stmt_def)
  next
    case (miss w1)
    from miss(2) have w1: "db w1 = db (initDatabase w)"
      "connections w1 = connections (initDatabase w)"
      by (auto simp: log_stmt_def)
    from run_and_store_result [OF miss(1)] obtain r w2 where
      run: "runTest P w1 = Inr (r, w2)" and w': "db w' = db w2" "connections w' = connections w2"
      by blast
    from runTest_steady [OF run] w1 w' show ?thesis by (simp add: steady_def)
  qed
  with i initDatabase_rows [of w] initDatabase_twice [of w] show ?thesis by simp
qed

theorem getCachedTest_opens_connection_witness:
  "\<exists>w'. getCachedTest demo_platform (cached_world [1299000]) = Inr (FromCache ''{writes:100}'', w') \<and>
     db (cached_world [1299000]) = Some 0 \<and> db w' = Some 1 \<and> connections w' = 2"
proof -
  let ?row = "\<lparr>cache_id = 1, result = ''{writes:100}'', timestamp = 1000\<rparr>"
  have "clock (cached_world [1299000]) = 1299000 # []"
    "seconds 1299000 - of_int (timestamp ?row) < of_int maxCacheSeconds"
    by (simp_all add: cached_world_def opened_world_def seconds_def maxCacheSeconds_def)
  from getCachedTest_hit [OF cached_world_row this, of demo_platform] obtain w' where
    g: "getCachedTest demo_platform (cached_world [1299000]) = Inr (FromCache ''{writes:100}'', w')"
    by (simp add: demo_platform_def)
  from getCachedTest_opens_connection [OF g] have "db w' = Some 1" "connections w' = 2"
    by (simp_all add: cached_world_def opened_world_def)
  with g show ?thesis by (intro exI [of _ w']) (simp add: cached_world_def opened_world_def)
qed

end
